theory Spec2Isabelle
  imports Complex_Main
begin

section \<open>Data model\<close>

text \<open>
  The pickled catalog \<^verbatim>\<open>movie_list.pkl\<close> is a DataFrame with the default
  RangeIndex, so a row's index label is its position: the catalog is a list of rows.
  The pickled similarity matrix is a list of rows of scores. Scores are numpy floats;
  they are modelled as real numbers (no NaN, no rounding error in comparisons).
\<close>

record pickle_row =
  row_id :: "int option"
  row_title :: string
  row_genre :: string
  row_overview :: string
  row_tags :: string

text \<open>The tables of \<^verbatim>\<open>models.py\<close> that the recommendation and migration code
  reads or writes, with the columns that code sets or reads. The timestamps, the
  columns the migration never sets and the primary keys that no code path reads are
  left out.\<close>

record movie =
  m_id :: nat
  m_tmdb_id :: "int option"
  m_title :: string
  m_genre :: string
  m_overview :: string
  m_tags :: string

record recommendation =
  source_movie_id :: nat
  recommended_movie_id :: nat
  similarity_score :: real
  rank :: nat

record similarity_pair =
  movie1_id :: nat
  movie2_id :: nat
  pair_score :: real
  algorithm :: string

record recommendation_history =
  h_source_movie_id :: nat
  h_session_id :: "string option"
  h_user_agent :: "string option"
  h_ip_address :: "string option"

record database =
  movies :: "movie list"
  recommendations :: "recommendation list"
  similarity_matrix_table :: "similarity_pair list"
  history :: "recommendation_history list"

definition empty_database :: database where
  "empty_database =
     \<lparr>movies = [], recommendations = [], similarity_matrix_table = [], history = []\<rparr>"

text \<open>The module-level globals of \<^verbatim>\<open>app.py\<close> set by \<^verbatim>\<open>load_data\<close>.\<close>

record globals =
  data_loaded :: bool
  movie_data :: "pickle_row list option"
  similarity_matrix :: "real list list option"

record request =
  json_movie :: "string option"
  session_id :: "string option"
  user_agent :: "string option"
  remote_addr :: "string option"

text \<open>The request as the handler sees it: the \<^verbatim>\<open>movie\<close> field of the JSON body
  (\<open>None\<close> when the body is empty or has no such field) and the values written to the
  history row. A JSON response: the success body with its three fields, or an error
  body with its HTTP status.\<close>

datatype response =
    Recommendations string "(string \<times> real) list" string
  | Failure nat string

section \<open>Python primitives\<close>

text \<open>Indexing a list out of range raises IndexError; here it is \<open>None\<close>.\<close>

definition nth_opt :: "'a list \<Rightarrow> nat \<Rightarrow> 'a option" where
  "nth_opt xs i = (if i < length xs then Some (xs ! i) else None)"

text \<open>\<^verbatim>\<open>xs[lo:hi]\<close> for \<open>0 \<le> lo \<le> hi\<close>.\<close>

definition slice :: "nat \<Rightarrow> nat \<Rightarrow> 'a list \<Rightarrow> 'a list" where
  "slice lo hi xs = take (hi - lo) (drop lo xs)"

text \<open>\<^verbatim>\<open>sorted(xs, key=key, reverse=True)\<close>: CPython reverses the list, sorts it
  with its stable ascending sort and reverses the result, so equal keys keep their
  original relative order.\<close>

definition sorted_reverse :: "('a \<Rightarrow> 'k::linorder) \<Rightarrow> 'a list \<Rightarrow> 'a list" where
  "sorted_reverse key xs = rev (sort_key key (rev xs))"

text \<open>\<^verbatim>\<open>round(x, 4)\<close> on an exact real: the nearest multiple of \<open>1/10000\<close>, a tie
  going to the even one.\<close>

definition round_half_even :: "real \<Rightarrow> int" where
  "round_half_even y =
     (let f = \<lfloor>y\<rfloor>; d = y - of_int f
      in if d < 1/2 then f else if 1/2 < d then f + 1 else if even f then f else f + 1)"

definition round4 :: "real \<Rightarrow> real" where
  "round4 x = of_int (round_half_even (x * 10000)) / 10000"

section \<open>The in-memory path of \<^verbatim>\<open>recommend_movies\<close>\<close>

text \<open>\<^verbatim>\<open>movie_data[movie_data['title'] == selected_movie].index[0]\<close>: the position of
  the first row with that title.\<close>

fun index_of_title :: "pickle_row list \<Rightarrow> string \<Rightarrow> nat option" where
  "index_of_title [] t = None"
| "index_of_title (r # rs) t =
     (if row_title r = t then Some 0 else map_option Suc (index_of_title rs t))"

text \<open>The loop \<^verbatim>\<open>for i, idx in enumerate(recommended_indices)\<close>: the title is read
  from the catalog at \<open>idx\<close>, the score from the sorted list at \<open>i + 1\<close>. An index
  out of range raises, which the handler turns into a 500 response.\<close>

fun build_recommendations ::
  "pickle_row list \<Rightarrow> (nat \<times> real) list \<Rightarrow> (nat \<times> nat) list \<Rightarrow> (string \<times> real) list option"
where
  "build_recommendations md similarity_scores [] = Some []"
| "build_recommendations md similarity_scores ((i, idx) # rest) =
     (case nth_opt md idx of
        None \<Rightarrow> None
      | Some r \<Rightarrow>
          (case nth_opt similarity_scores (i + 1) of
             None \<Rightarrow> None
           | Some p \<Rightarrow>
               map_option ((#) (row_title r, round4 (snd p)))
                 (build_recommendations md similarity_scores rest)))"

definition not_found_message :: "string \<Rightarrow> string" where
  "not_found_message selected_movie =
     ''Movie \"'' @ selected_movie @ ''\" not found in database or pickle data''"

definition pickle_recommendations ::
  "pickle_row list \<Rightarrow> real list list \<Rightarrow> string \<Rightarrow> response"
where
  "pickle_recommendations md sm selected_movie =
     (case index_of_title md selected_movie of
        None \<Rightarrow> Failure 404 (not_found_message selected_movie)
      | Some movie_index \<Rightarrow>
          (case nth_opt sm movie_index of
             None \<Rightarrow> Failure 500 ''Failed to generate recommendations''
           | Some row \<Rightarrow>
               (let similarity_scores = sorted_reverse snd (enumerate 0 row);
                    recommended_indices = map fst (slice 1 11 similarity_scores)
                in case build_recommendations md similarity_scores
                          (enumerate 0 recommended_indices) of
                     None \<Rightarrow> Failure 500 ''Failed to generate recommendations''
                   | Some recs \<Rightarrow> Recommendations selected_movie recs ''pickle'')))"

section \<open>The persisted path and the request handler\<close>

text \<open>The loop over the stored rows. \<^verbatim>\<open>rec.recommended_movie\<close> is the movie with
  that primary key; when there is none, reading its title raises and the handler
  answers 500.\<close>

fun database_recommendations ::
  "movie list \<Rightarrow> recommendation list \<Rightarrow> (string \<times> real) list option"
where
  "database_recommendations ms [] = Some []"
| "database_recommendations ms (rec # recs) =
     (case find (\<lambda>m. m_id m = recommended_movie_id rec) ms of
        None \<Rightarrow> None
      | Some m \<Rightarrow>
          map_option ((#) (m_title m, round4 (similarity_score rec)))
            (database_recommendations ms recs))"

text \<open>The analytics write: \<^verbatim>\<open>db.session.add(history); db.session.commit()\<close> inside
  its own \<^verbatim>\<open>try\<close>. The commit either goes through or raises; the handler of the
  exception only logs a warning.\<close>

datatype commit_outcome = Committed | Raised string

definition log_request :: "commit_outcome \<Rightarrow> movie \<Rightarrow> request \<Rightarrow> database \<Rightarrow> database" where
  "log_request outcome source_movie req db =
     (case outcome of
        Committed \<Rightarrow>
          db\<lparr>history := history db @
             [\<lparr>h_source_movie_id = m_id source_movie, h_session_id = session_id req,
               h_user_agent = user_agent req, h_ip_address = remote_addr req\<rparr>]\<rparr>
      | Raised e \<Rightarrow> db)"

definition pickle_fallback :: "globals \<Rightarrow> string \<Rightarrow> response" where
  "pickle_fallback g selected_movie =
     (if \<not> data_loaded g then
        Failure 404 ''Movie not found in database and pickle-based recommendations not available.''
      else case movie_data g of
        None \<Rightarrow>
          Failure 404 ''Movie not found in database and pickle-based recommendations not available.''
      | Some md \<Rightarrow>
          (case similarity_matrix g of
             None \<Rightarrow>
               Failure 404 ''Movie not found in database and pickle-based recommendations not available.''
           | Some sm \<Rightarrow> pickle_recommendations md sm selected_movie))"

text \<open>\<^verbatim>\<open>Recommendation.query.filter_by(source_movie_id=...).order_by(rank).limit(10)\<close>:
  rows with equal rank keep their table order.\<close>

definition query_recommendations :: "database \<Rightarrow> nat \<Rightarrow> recommendation list" where
  "query_recommendations db source =
     take 10 (sort_key rank (filter (\<lambda>r. source_movie_id r = source) (recommendations db)))"

definition recommend_movies ::
  "globals \<Rightarrow> request \<Rightarrow> commit_outcome \<Rightarrow> database \<Rightarrow> response \<times> database"
where
  "recommend_movies g req outcome db =
     (case json_movie req of
        None \<Rightarrow> (Failure 400 ''Movie title is required'', db)
      | Some selected_movie \<Rightarrow>
          (case find (\<lambda>m. m_title m = selected_movie) (movies db) of
             None \<Rightarrow> (pickle_fallback g selected_movie, db)
           | Some source_movie \<Rightarrow>
               (let db_recommendations = query_recommendations db (m_id source_movie)
                in if db_recommendations = [] then (pickle_fallback g selected_movie, db)
                   else
                     (case database_recommendations (movies db) db_recommendations of
                        None \<Rightarrow> (Failure 500 ''Failed to generate recommendations'', db)
                      | Some recs \<Rightarrow>
                          (Recommendations selected_movie recs ''database'',
                           log_request outcome source_movie req db)))))"

section \<open>The migration script\<close>

text \<open>
  The movie pass is modelled with its session: a query flushes the objects added
  before it, a commit flushes and makes the transaction durable, and an INSERT that
  the store rejects raises inside the \<^verbatim>\<open>try\<close> of the loop, whose handler rolls the
  transaction back and goes on with the next row. The later passes add rows whose
  constraints they have checked themselves (foreign keys from the movie table, the
  pair looked up before the add), so their inserts are not rejected; the IndexError of
  a catalog or matrix access is modelled, with the \<^verbatim>\<open>continue\<close> of the handler that
  catches it. Connection failures are outside the model.
\<close>

text \<open>The primary key of a new row: larger than every key the transaction sees,
  never 0.\<close>

definition next_movie_id :: "movie list \<Rightarrow> nat" where
  "next_movie_id ms = Suc (fold max (map m_id ms) 0)"

text \<open>The \<^verbatim>\<open>Movie(...)\<close> object built from a catalog row, with the key it receives
  when it is inserted.\<close>

definition new_movie :: "movie list \<Rightarrow> pickle_row \<Rightarrow> movie" where
  "new_movie table row =
     \<lparr>m_id = next_movie_id table, m_tmdb_id = row_id row, m_title = row_title row,
      m_genre = row_genre row, m_overview = row_overview row, m_tags = row_tags row\<rparr>"

text \<open>The INSERT of one movie into the rows the transaction sees. The checks the
  storage engine makes on the values (integer range, string length) are not part of
  the repository: they are the parameter \<open>accepts\<close>. The UNIQUE constraint on
  \<^verbatim>\<open>tmdb_id\<close> is that of \<^verbatim>\<open>models.py\<close>: no two rows share a \<^verbatim>\<open>tmdb_id\<close> that is
  not NULL. A rejected INSERT raises: \<open>None\<close>.\<close>

definition insert_movie ::
  "(pickle_row \<Rightarrow> bool) \<Rightarrow> movie list \<Rightarrow> pickle_row \<Rightarrow> movie list option"
where
  "insert_movie accepts table row =
     (if \<not> accepts row then None
      else case row_id row of
        None \<Rightarrow> Some (table @ [new_movie table row])
      | Some v \<Rightarrow>
          if Some v \<in> set (map m_tmdb_id table) then None
          else Some (table @ [new_movie table row]))"

text \<open>The flush of the added objects, in the order they were added.\<close>

fun flush :: "(pickle_row \<Rightarrow> bool) \<Rightarrow> movie list \<Rightarrow> pickle_row list \<Rightarrow> movie list option" where
  "flush accepts table [] = Some table"
| "flush accepts table (row # rows) =
     (case insert_movie accepts table row of
        None \<Rightarrow> None
      | Some table' \<Rightarrow> flush accepts table' rows)"

text \<open>The state of the loop of \<^verbatim>\<open>migrate_movies\<close>: the movie table as of the last
  commit, the table as the open transaction sees it (with the rows flushed since), the
  objects added and not yet flushed, and the two counters.\<close>

record movie_pass =
  committed :: "movie list"
  visible :: "movie list"
  pending :: "pickle_row list"
  migrated_count :: nat
  skipped_count :: nat

text \<open>\<^verbatim>\<open>db.session.rollback()\<close>: the flushed rows and the added objects are gone.\<close>

definition rollback :: "movie_pass \<Rightarrow> movie_pass" where
  "rollback s = s\<lparr>visible := committed s, pending := []\<rparr>"

text \<open>One iteration of the loop of \<^verbatim>\<open>migrate_movies\<close>. The query for an existing
  title flushes first; when the flush raises, the handler rolls back and the row is
  left out. A row whose title is found is skipped. Otherwise the movie is added, and
  every fiftieth added movie triggers a commit, whose failure is handled in the same
  way.\<close>

definition migrate_movie :: "(pickle_row \<Rightarrow> bool) \<Rightarrow> pickle_row \<Rightarrow> movie_pass \<Rightarrow> movie_pass" where
  "migrate_movie accepts row s =
     (case flush accepts (visible s) (pending s) of
        None \<Rightarrow> rollback s
      | Some table \<Rightarrow>
          (case find (\<lambda>m. m_title m = row_title row) table of
             Some existing_movie \<Rightarrow>
               s\<lparr>visible := table, pending := [], skipped_count := skipped_count s + 1\<rparr>
           | None \<Rightarrow>
               if (migrated_count s + 1) mod 50 = 0 then
                 (case flush accepts table [row] of
                    None \<Rightarrow> rollback (s\<lparr>migrated_count := migrated_count s + 1\<rparr>)
                  | Some table' \<Rightarrow>
                      s\<lparr>committed := table', visible := table', pending := [],
                        migrated_count := migrated_count s + 1\<rparr>)
               else
                 s\<lparr>visible := table, pending := [row],
                   migrated_count := migrated_count s + 1\<rparr>))"

text \<open>\<^verbatim>\<open>migrate_movies\<close>: the loop, then the final commit. When the final commit
  raises, the pass rolls back and returns False; the database then holds the rows of
  the last successful commit.\<close>

definition migrate_movies ::
  "(pickle_row \<Rightarrow> bool) \<Rightarrow> pickle_row list \<Rightarrow> database \<Rightarrow> bool \<times> database"
where
  "migrate_movies accepts md db =
     (let s = fold (migrate_movie accepts) md
                \<lparr>committed = movies db, visible = movies db, pending = [],
                 migrated_count = 0, skipped_count = 0\<rparr>
      in case flush accepts (visible s) (pending s) of
           None \<Rightarrow> (False, db\<lparr>movies := committed s\<rparr>)
         | Some table \<Rightarrow> (True, db\<lparr>movies := table\<rparr>))"

text \<open>\<^verbatim>\<open>{movie.title: movie.id for movie in movies}\<close>: a later movie with the same
  title overwrites an earlier one.\<close>

definition movie_id_map :: "movie list \<Rightarrow> string \<rightharpoonup> nat" where
  "movie_id_map ms = fold (\<lambda>m mp. mp(m_title m \<mapsto> m_id m)) ms Map.empty"

text \<open>\<^verbatim>\<open>if not movie_id\<close> holds for a missing key and for the id 0.\<close>

definition truthy_id :: "nat option \<Rightarrow> nat option" where
  "truthy_id v = (case v of None \<Rightarrow> None | Some i \<Rightarrow> if i = 0 then None else Some i)"

text \<open>One iteration of the inner loop of \<^verbatim>\<open>migrate_similarity_data\<close>, over
  \<^verbatim>\<open>enumerate(similarity_scores[1:11], 1)\<close>.\<close>

definition create_recommendation ::
  "pickle_row list \<Rightarrow> (string \<rightharpoonup> nat) \<Rightarrow> nat \<Rightarrow> nat \<times> nat \<times> real \<Rightarrow> database \<Rightarrow> database"
where
  "create_recommendation md idmap source item db =
     (case item of (rnk, target_index, score) \<Rightarrow>
        (case nth_opt md target_index of
           None \<Rightarrow> db
         | Some target_row \<Rightarrow>
             (case truthy_id (idmap (row_title target_row)) of
                None \<Rightarrow> db
              | Some target_movie_id \<Rightarrow>
                  (case find (\<lambda>r. source_movie_id r = source \<and>
                                   recommended_movie_id r = target_movie_id)
                          (recommendations db) of
                     Some existing_rec \<Rightarrow> db
                   | None \<Rightarrow>
                       db\<lparr>recommendations := recommendations db @
                           [\<lparr>source_movie_id = source, recommended_movie_id = target_movie_id,
                             similarity_score = score, rank = rnk\<rparr>]\<rparr>))))"

text \<open>One iteration of the outer loop.\<close>

definition migrate_similarity_row ::
  "pickle_row list \<Rightarrow> real list list \<Rightarrow> (string \<rightharpoonup> nat) \<Rightarrow> nat \<times> pickle_row \<Rightarrow>
   database \<Rightarrow> database"
where
  "migrate_similarity_row md sm idmap entry db =
     (case entry of (i, row) \<Rightarrow>
        (case truthy_id (idmap (row_title row)) of
           None \<Rightarrow> db
         | Some source \<Rightarrow>
             (case nth_opt sm i of
                None \<Rightarrow> db
              | Some scores \<Rightarrow>
                  (let similarity_scores = sorted_reverse snd (enumerate 0 scores)
                   in fold (create_recommendation md idmap source)
                        (enumerate 1 (slice 1 11 similarity_scores)) db))))"

definition migrate_similarity_data ::
  "pickle_row list \<Rightarrow> real list list \<Rightarrow> database \<Rightarrow> database"
where
  "migrate_similarity_data md sm db =
     fold (migrate_similarity_row md sm (movie_id_map (movies db))) (enumerate 0 md) db"

text \<open>\<^verbatim>\<open>similarity_matrix[i][j]\<close>.\<close>

definition matrix_entry :: "real list list \<Rightarrow> nat \<Rightarrow> nat \<Rightarrow> real option" where
  "matrix_entry sm i j = (case nth_opt sm i of None \<Rightarrow> None | Some row \<Rightarrow> nth_opt row j)"

text \<open>The body of the double loop of \<^verbatim>\<open>migrate_similarity_matrix\<close>.\<close>

definition store_similarity ::
  "real list list \<Rightarrow> (string \<rightharpoonup> nat) \<Rightarrow> nat \<times> pickle_row \<Rightarrow> nat \<times> pickle_row \<Rightarrow>
   database \<Rightarrow> database"
where
  "store_similarity sm idmap entry1 entry2 db =
     (case entry1 of (i, row1) \<Rightarrow> case entry2 of (j, row2) \<Rightarrow>
        if i \<ge> j then db
        else
          (case truthy_id (idmap (row_title row1)) of
             None \<Rightarrow> db
           | Some m1 \<Rightarrow>
               (case truthy_id (idmap (row_title row2)) of
                  None \<Rightarrow> db
                | Some m2 \<Rightarrow>
                    (case find (\<lambda>p. movie1_id p = m1 \<and> movie2_id p = m2)
                            (similarity_matrix_table db) of
                       Some existing_sim \<Rightarrow> db
                     | None \<Rightarrow>
                         (case matrix_entry sm i j of
                            None \<Rightarrow> db
                          | Some score \<Rightarrow>
                              if score > 0.01 then
                                db\<lparr>similarity_matrix_table := similarity_matrix_table db @
                                    [\<lparr>movie1_id = m1, movie2_id = m2, pair_score = score,
                                      algorithm = ''cosine_similarity''\<rparr>]\<rparr>
                              else db)))))"

definition migrate_similarity_matrix ::
  "pickle_row list \<Rightarrow> real list list \<Rightarrow> database \<Rightarrow> database"
where
  "migrate_similarity_matrix md sm db =
     fold (\<lambda>entry1. fold (store_similarity sm (movie_id_map (movies db)) entry1)
                       (enumerate 0 md))
       (enumerate 0 md) db"

text \<open>\<^verbatim>\<open>main\<close>, once the pickle files are loaded: it stops with False when the movie
  pass returns False, and otherwise runs the two later passes on the movie table the
  movie pass left.\<close>

definition main ::
  "(pickle_row \<Rightarrow> bool) \<Rightarrow> pickle_row list \<Rightarrow> real list list \<Rightarrow> database \<Rightarrow> bool \<times> database"
where
  "main accepts md sm db =
     (case migrate_movies accepts md db of
        (ok, db1) \<Rightarrow>
          if \<not> ok then (False, db1)
          else (True, migrate_similarity_matrix md sm (migrate_similarity_data md sm db1)))"

section \<open>Vocabulary of the properties\<close>

text \<open>The candidates the ranking step keeps from a matrix row: the sorted
  \<open>(index, score)\<close> pairs at positions 1 to 10.\<close>

definition top_pairs :: "real list \<Rightarrow> (nat \<times> real) list" where
  "top_pairs row = slice 1 11 (sorted_reverse snd (enumerate 0 row))"

text \<open>\<open>p\<close> is ranked before \<open>q\<close>: a higher score, or the same score and a smaller index.\<close>

definition rank_before :: "nat \<times> real \<Rightarrow> nat \<times> real \<Rightarrow> bool" where
  "rank_before p q = (snd q < snd p \<or> (snd p = snd q \<and> fst p < fst q))"

text \<open>The item shown for a candidate: its catalog title and its rounded score.\<close>

definition present :: "pickle_row list \<Rightarrow> nat \<times> real \<Rightarrow> string \<times> real" where
  "present md p = (row_title (md ! fst p), round4 (snd p))"

text \<open>Sample data: a catalog row with a \<^verbatim>\<open>tmdb_id\<close> and a title, and a three-movie
  catalog with its matrices.\<close>

definition titled :: "int \<Rightarrow> string \<Rightarrow> pickle_row" where
  "titled k t = \<lparr>row_id = Some k, row_title = t, row_genre = [], row_overview = [], row_tags = []\<rparr>"

definition catalog3 :: "pickle_row list" where
  "catalog3 = [titled 11 ''A'', titled 12 ''B'', titled 13 ''C'']"

definition twin_matrix :: "real list list" where
  "twin_matrix = [[1, 1, 0.5], [1, 1, 0.5], [0.5, 0.5, 1]]"

definition toy_matrix :: "real list list" where
  "toy_matrix = [[1, 0.8, 0.2], [0.8, 1, 0.5], [0.2, 0.5, 1]]"

definition low_matrix :: "real list list" where
  "low_matrix = [[1, 0.005, 0.5], [0.005, 1, 0], [0.5, 0, 1]]"

text \<open>A well-formed movie table: the primary keys are distinct and positive (they
  come from an autoincrement column), and no title occurs twice.\<close>

definition movies_ok :: "movie list \<Rightarrow> bool" where
  "movies_ok ms \<longleftrightarrow> distinct (map m_id ms) \<and> distinct (map m_title ms) \<and> 0 \<notin> m_id ` set ms"

text \<open>The Recommendation rows stored for a source movie, in table order.\<close>

definition rows_of :: "database \<Rightarrow> nat \<Rightarrow> recommendation list" where
  "rows_of db source = filter (\<lambda>r. source_movie_id r = source) (recommendations db)"

text \<open>The Recommendation rows the migration is expected to store for a source: one per
  ranked item \<open>(rank, index, score)\<close>, pointing at the movie that carries the title of
  the catalog row at that index.\<close>

definition expected_rows ::
  "pickle_row list \<Rightarrow> (string \<rightharpoonup> nat) \<Rightarrow> nat \<Rightarrow> (nat \<times> nat \<times> real) list \<Rightarrow> recommendation list"
where
  "expected_rows md idmap source items =
     map (\<lambda>(rnk, idx, sc).
            \<lparr>source_movie_id = source,
             recommended_movie_id = the (idmap (row_title (md ! idx))),
             similarity_score = sc, rank = rnk\<rparr>) items"

text \<open>Every catalog title has a usable id in the title-to-id dictionary, and two catalog
  rows never share one.\<close>

definition ids_ok :: "pickle_row list \<Rightarrow> (string \<rightharpoonup> nat) \<Rightarrow> bool" where
  "ids_ok md idmap \<longleftrightarrow>
     (\<forall>i < length md. \<exists>k. k \<noteq> 0 \<and> idmap (row_title (md ! i)) = Some k) \<and>
     (\<forall>i < length md. \<forall>j < length md.
        idmap (row_title (md ! i)) = idmap (row_title (md ! j)) \<longrightarrow> i = j)"

text \<open>Sample requests, globals and the stored movie of the sample catalogs.\<close>

definition request_for :: "string \<Rightarrow> request" where
  "request_for t = \<lparr>json_movie = Some t, session_id = None, user_agent = None, remote_addr = None\<rparr>"

definition stored_movie :: "nat \<Rightarrow> int \<Rightarrow> string \<Rightarrow> movie" where
  "stored_movie k v t =
     \<lparr>m_id = k, m_tmdb_id = Some v, m_title = t, m_genre = [], m_overview = [], m_tags = []\<rparr>"

text \<open>The run in which no insert is rejected, used in the proofs: each row whose title is
  not stored yet is appended to the movie table, and the later passes follow.\<close>

definition store_movie ::
  "pickle_row \<Rightarrow> database \<times> nat \<times> nat \<Rightarrow> database \<times> nat \<times> nat"
where
  "store_movie row st =
     (case st of (db, migrated, skipped) \<Rightarrow>
        (case find (\<lambda>m. m_title m = row_title row) (movies db) of
           Some existing_movie \<Rightarrow> (db, migrated, skipped + 1)
         | None \<Rightarrow>
             (db\<lparr>movies := movies db @ [new_movie (movies db) row]\<rparr>, migrated + 1, skipped)))"

definition store_movies :: "pickle_row list \<Rightarrow> database \<Rightarrow> database \<times> nat \<times> nat" where
  "store_movies md db = fold store_movie md (db, 0, 0)"

definition migrate_all :: "pickle_row list \<Rightarrow> real list list \<Rightarrow> database \<Rightarrow> database" where
  "migrate_all md sm db =
     migrate_similarity_matrix md sm (migrate_similarity_data md sm (fst (store_movies md db)))"

text \<open>Every row of the catalog can be stored on top of a movie table: the engine accepts
  its values, and its \<^verbatim>\<open>tmdb_id\<close>, when it has one, is neither in the table nor on a
  later row of the catalog.\<close>

fun storable :: "(pickle_row \<Rightarrow> bool) \<Rightarrow> movie list \<Rightarrow> pickle_row list \<Rightarrow> bool" where
  "storable accepts table [] = True"
| "storable accepts table (row # rows) =
     (accepts row \<and>
      (case row_id row of
         None \<Rightarrow> True
       | Some v \<Rightarrow> Some v \<notin> set (map m_tmdb_id table) \<and> Some v \<notin> set (map row_id rows)) \<and>
      storable accepts table rows)"

text \<open>The store holds, for the source at catalog index \<open>i\<close>, the first \<open>n\<close> ranked
  candidates of its matrix row with the ranks 1, 2, ...; the rows may lie in the table
  in any order.\<close>

definition holds_ranked ::
  "pickle_row list \<Rightarrow> real list list \<Rightarrow> database \<Rightarrow> nat \<Rightarrow> movie \<Rightarrow> nat \<Rightarrow> bool"
where
  "holds_ranked md sm db i source n \<longleftrightarrow>
     movies_ok (movies db) \<and> set (map row_title md) \<subseteq> set (map m_title (movies db)) \<and>
     find (\<lambda>m. m_title m = row_title (md ! i)) (movies db) = Some source \<and>
     sort_key rank (rows_of db (m_id source))
       = expected_rows md (movie_id_map (movies db)) (m_id source)
           (enumerate 1 (take n (drop 1 (sorted_reverse snd (enumerate 0 (sm ! i))))))"

text \<open>An engine whose only check of the values is the 32-bit range of the INTEGER
  column, and a catalog with a repeated \<^verbatim>\<open>tmdb_id\<close>.\<close>

definition sql_integer :: "pickle_row \<Rightarrow> bool" where
  "sql_integer row = (case row_id row of None \<Rightarrow> True | Some v \<Rightarrow> - (2 ^ 31) \<le> v \<and> v < 2 ^ 31)"

definition repeated_ids :: "pickle_row list" where
  "repeated_ids = [titled 1 ''A'', titled 1 ''B'', titled 3 ''C'', titled 1 ''D'']"

text \<open>A store written by hand for the sample catalog and \<open>twin_matrix\<close>: the two rows of
  source 3 lie in the table with rank 2 before rank 1.\<close>

definition shuffled_store :: database where
  "shuffled_store =
     \<lparr>movies = [stored_movie 1 11 ''A'', stored_movie 2 12 ''B'', stored_movie 3 13 ''C''],
      recommendations =
        [\<lparr>source_movie_id = 3, recommended_movie_id = 2, similarity_score = 0.5, rank = 2\<rparr>,
         \<lparr>source_movie_id = 1, recommended_movie_id = 2, similarity_score = 1, rank = 1\<rparr>,
         \<lparr>source_movie_id = 3, recommended_movie_id = 1, similarity_score = 0.5, rank = 1\<rparr>],
      similarity_matrix_table = [], history = []\<rparr>"

definition twin_globals :: globals where
  "twin_globals =
     \<lparr>data_loaded = True, movie_data = Some catalog3, similarity_matrix = Some twin_matrix\<rparr>"

text \<open>A stored similarity pair is justified by the matrix: it belongs to two catalog
  rows \<open>i < j\<close>, carries the entry of the matrix at \<open>(i, j)\<close>, and that entry is above
  the threshold.\<close>

definition pair_justified ::
  "pickle_row list \<Rightarrow> real list list \<Rightarrow> (string \<rightharpoonup> nat) \<Rightarrow> similarity_pair \<Rightarrow> bool"
where
  "pair_justified md sm idmap p \<longleftrightarrow>
     (\<exists>i j. i < j \<and> j < length md \<and>
        idmap (row_title (md ! i)) = Some (movie1_id p) \<and>
        idmap (row_title (md ! j)) = Some (movie2_id p) \<and>
        matrix_entry sm i j = Some (pair_score p) \<and> 0.01 < pair_score p)"

section \<open>Lists and folds\<close>

lemma nth_opt_Some_iff: "nth_opt xs i = Some x \<longleftrightarrow> i < length xs \<and> xs ! i = x"
  by (auto simp: nth_opt_def)

lemma fold_invariant:
  assumes "Q s" and "\<And>x s. x \<in> set xs \<Longrightarrow> Q s \<Longrightarrow> Q (f x s)"
  shows "Q (fold f xs s)"
  using assms by (induction xs arbitrary: s) auto

lemma fold_establish:
  assumes "x \<in> set xs" and "\<And>s. Q (f x s)" and "\<And>y s. y \<in> set xs \<Longrightarrow> Q s \<Longrightarrow> Q (f y s)"
  shows "Q (fold f xs s)"
  using assms
proof (induction xs arbitrary: s)
  case Nil
  then show ?case by simp
next
  case (Cons a xs)
  show ?case
  proof (cases "x \<in> set xs")
    case True
    with Cons show ?thesis by simp
  next
    case False
    with Cons.prems(1) have "a = x" by simp
    then have "Q (f a s)" using Cons.prems(2) by simp
    then have "Q (fold f xs (f a s))"
    proof (rule fold_invariant)
      fix y t assume "y \<in> set xs" "Q t"
      then show "Q (f y t)" using Cons.prems(3) by simp
    qed
    then show ?thesis by simp
  qed
qed

lemma find_unique:
  "distinct (map f xs) \<Longrightarrow> x \<in> set xs \<Longrightarrow> find (\<lambda>y. f y = f x) xs = Some x"
proof (induction xs)
  case Nil
  then show ?case by simp
next
  case (Cons a xs)
  show ?case
  proof (cases "a = x")
    case True
    then show ?thesis by simp
  next
    case False
    with Cons.prems have "x \<in> set xs" "f a \<notin> f ` set xs" by auto
    then have "f a \<noteq> f x" by blast
    with Cons \<open>x \<in> set xs\<close> show ?thesis by simp
  qed
qed

lemma find_title_exists:
  "t \<in> m_title ` set ms \<Longrightarrow> \<exists>m. find (\<lambda>m. m_title m = t) ms = Some m"
  by (cases "find (\<lambda>m. m_title m = t) ms") (auto simp: find_None_iff)

lemma distinct_map_eq:
  "distinct (map f xs) \<Longrightarrow> x \<in> set xs \<Longrightarrow> y \<in> set xs \<Longrightarrow> f x = f y \<Longrightarrow> x = y"
  by (simp add: distinct_map inj_on_def)

lemma index_of_member:
  "x \<in> set xs \<Longrightarrow> \<exists>i < length xs. xs ! i = x"
  by (simp add: in_set_conv_nth)

lemma fold_max_bounds:
  "(a::nat) \<le> fold max xs a \<and> (\<forall>x \<in> set xs. x \<le> fold max xs a)"
proof (induction xs arbitrary: a)
  case Nil
  then show ?case by simp
next
  case (Cons y xs)
  from Cons [of "max y a"] show ?case by auto
qed

lemma enumerate_entries:
  "\<forall>e \<in> set (enumerate 0 md). fst e < length md \<and> snd e = md ! fst e"
  by (auto simp: in_set_enumerate_eq)

section \<open>The sort and the ranked candidates\<close>

lemma length_sorted_reverse [simp]: "length (sorted_reverse key xs) = length xs"
  by (simp add: sorted_reverse_def)

lemma set_sorted_reverse [simp]: "set (sorted_reverse key xs) = set xs"
  by (simp add: sorted_reverse_def)

lemma distinct_sorted_reverse [simp]: "distinct (sorted_reverse key xs) = distinct xs"
  by (simp add: sorted_reverse_def)

lemma sorted_reverse_descending:
  "sorted_wrt (\<lambda>a b. key b \<le> key a) (sorted_reverse key xs)"
proof -
  have "sorted_wrt (\<lambda>a b. key a \<le> key b) (sort_key key (rev xs))"
    using sorted_sort_key [of key "rev xs"] by (simp add: sorted_wrt_map)
  then show ?thesis
    by (simp add: sorted_reverse_def sorted_wrt_rev)
qed

lemma sorted_reverse_stable:
  "filter (\<lambda>y. key y = k) (sorted_reverse key xs) = filter (\<lambda>y. key y = k) xs"
  by (simp add: sorted_reverse_def rev_filter sort_key_stable flip: rev_filter)

lemma sorted_wrt_ties:
  assumes "sorted_wrt R ys" and "\<And>k. sorted_wrt Q (filter (\<lambda>y. f y = k) ys)"
  shows "sorted_wrt (\<lambda>a b. R a b \<and> (f a = f b \<longrightarrow> Q a b)) ys"
  using assms
proof (induction ys)
  case Nil
  then show ?case by simp
next
  case (Cons a ys)
  have tail: "sorted_wrt Q (filter (\<lambda>y. f y = k) ys)" for k
    using Cons.prems(2) [of k] by (simp split: if_splits)
  have "Q a b" if "b \<in> set ys" "f a = f b" for b
    using Cons.prems(2) [of "f a"] that by simp
  with Cons tail show ?case by auto
qed

lemma enumerate_filter_increasing:
  "sorted_wrt (\<lambda>p q. fst p < fst q) (filter P (enumerate n xs))"
proof -
  have "sorted_wrt (\<lambda>p q. fst p < fst q) (enumerate n xs)
          = sorted_wrt (<) (map fst (enumerate n xs))"
    by (simp only: sorted_wrt_map)
  then have "sorted_wrt (\<lambda>p q. fst p < fst q) (enumerate n xs)"
    by simp
  then show ?thesis
    by (rule sorted_wrt_filter)
qed

lemma sorted_reverse_enumerate_ranked:
  "sorted_wrt rank_before (sorted_reverse snd (enumerate n row))"
proof -
  let ?ys = "sorted_reverse snd (enumerate n row)"
  have "sorted_wrt (\<lambda>a b. snd b \<le> snd a \<and> (snd a = snd b \<longrightarrow> fst a < fst b)) ?ys"
    by (rule sorted_wrt_ties)
       (simp_all add: sorted_reverse_descending sorted_reverse_stable enumerate_filter_increasing)
  then show ?thesis
    by (rule sorted_wrt_mono_rel [rotated]) (auto simp: rank_before_def)
qed

lemma top_pairs_ranked: "sorted_wrt rank_before (top_pairs row)"
  unfolding top_pairs_def slice_def
  by (intro sorted_wrt_take sorted_wrt_drop sorted_reverse_enumerate_ranked)

lemma top_pairs_scores_descending: "sorted_wrt (\<ge>) (map snd (top_pairs row))"
proof -
  have "sorted_wrt (\<lambda>p q. snd q \<le> snd p) (top_pairs row)"
    using top_pairs_ranked [of row]
    by (rule sorted_wrt_mono_rel [rotated]) (auto simp: rank_before_def)
  then show ?thesis by (simp add: sorted_wrt_map)
qed

lemma length_top_pairs: "length (top_pairs row) = min 10 (length row - 1)"
  by (simp add: top_pairs_def slice_def)

lemma top_pairs_subset: "set (top_pairs row) \<subseteq> set (enumerate 0 row)"
proof -
  have "set (top_pairs row) \<subseteq> set (sorted_reverse snd (enumerate 0 row))"
    unfolding top_pairs_def slice_def
    by (meson set_take_subset set_drop_subset subset_trans)
  then show ?thesis by simp
qed

lemma top_pairs_entry:
  assumes "p \<in> set (top_pairs row)"
  shows "fst p < length row \<and> snd p = row ! fst p"
  using assms top_pairs_subset [of row]
  by (auto simp: in_set_enumerate_eq)

lemma distinct_top_pairs: "distinct (map fst (top_pairs row))"
proof -
  have "distinct (map fst (enumerate 0 row))" by simp
  then have "distinct (map fst (sorted_reverse snd (enumerate 0 row)))"
    by (metis distinct_map distinct_sorted_reverse set_sorted_reverse)
  then show ?thesis
    unfolding top_pairs_def slice_def
    by (simp flip: take_map drop_map)
qed

section \<open>Rounding keeps the order\<close>

lemma round_half_even_mono: "x \<le> y \<Longrightarrow> round_half_even x \<le> round_half_even y"
proof -
  assume xy: "x \<le> y"
  then have fl: "\<lfloor>x\<rfloor> \<le> \<lfloor>y\<rfloor>" by (rule floor_mono)
  have lo: "\<lfloor>y\<rfloor> \<le> round_half_even y" and hi: "round_half_even x \<le> \<lfloor>x\<rfloor> + 1"
    by (simp_all add: round_half_even_def Let_def)
  show ?thesis
  proof (cases "\<lfloor>x\<rfloor> = \<lfloor>y\<rfloor>")
    case True
    with xy show ?thesis
      by (auto simp: round_half_even_def Let_def)
  next
    case False
    with fl have "\<lfloor>x\<rfloor> + 1 \<le> \<lfloor>y\<rfloor>" by simp
    with lo hi show ?thesis by linarith
  qed
qed

lemma round4_mono: "x \<le> y \<Longrightarrow> round4 x \<le> round4 y"
  by (simp add: round4_def round_half_even_mono divide_right_mono)

lemma presented_scores_descending:
  "sorted_wrt (\<ge>) (map snd (map (present md) (top_pairs row)))"
proof -
  have "sorted_wrt (\<lambda>p q. round4 (snd q) \<le> round4 (snd p)) (top_pairs row)"
    using top_pairs_ranked [of row]
    by (rule sorted_wrt_mono_rel [rotated]) (auto simp: rank_before_def intro: round4_mono)
  then show ?thesis
    by (simp add: sorted_wrt_map present_def)
qed

section \<open>The in-memory path\<close>

lemma index_of_title_Some:
  "index_of_title md t = Some i \<Longrightarrow> i < length md \<and> row_title (md ! i) = t"
  by (induction md arbitrary: i) (auto split: if_splits)

lemma build_recommendations_Some:
  "build_recommendations md scores ps = Some recs \<Longrightarrow>
     recs = map (\<lambda>(i, idx). (row_title (md ! idx), round4 (snd (scores ! (Suc i))))) ps
     \<and> (\<forall>(i, idx) \<in> set ps. idx < length md \<and> Suc i < length scores)"
proof (induction ps arbitrary: recs)
  case Nil
  then show ?case by simp
next
  case (Cons p ps)
  obtain i idx where p: "p = (i, idx)" by (cases p)
  from Cons.prems p obtain tl where
    "idx < length md" "Suc i < length scores"
    "build_recommendations md scores ps = Some tl"
    "recs = (row_title (md ! idx), round4 (snd (scores ! (Suc i)))) # tl"
    by (auto simp: nth_opt_Some_iff split: option.splits)
  with Cons.IH [of tl] p show ?case by simp
qed

lemma build_recommendations_total:
  "\<forall>(i, idx) \<in> set ps. idx < length md \<and> Suc i < length scores \<Longrightarrow>
   build_recommendations md scores ps =
     Some (map (\<lambda>(i, idx). (row_title (md ! idx), round4 (snd (scores ! (Suc i))))) ps)"
  by (induction ps) (auto simp: nth_opt_def)

lemma slice_1_nth:
  "i < length (slice (Suc 0) 11 xs) \<Longrightarrow> slice (Suc 0) 11 xs ! i = xs ! (Suc i) \<and> Suc i < length xs"
  by (auto simp: slice_def)

lemma enumerate_slice_items:
  "map (\<lambda>(i, idx). (row_title (md ! idx), round4 (snd (scores ! (Suc i)))))
       (enumerate 0 (map fst (slice (Suc 0) 11 scores)))
   = map (present md) (slice (Suc 0) 11 scores)"
  by (rule nth_equalityI) (auto simp: nth_enumerate_eq present_def slice_1_nth)

lemma build_recommendations_slice_Some:
  assumes "build_recommendations md scores (enumerate 0 (map fst (slice (Suc 0) 11 scores))) = Some recs"
  shows "recs = map (present md) (slice (Suc 0) 11 scores)"
  using build_recommendations_Some [OF assms] enumerate_slice_items [of md scores] by simp

lemma build_recommendations_slice_total:
  assumes "\<forall>p \<in> set (slice (Suc 0) 11 scores). fst p < length md"
  shows "build_recommendations md scores (enumerate 0 (map fst (slice (Suc 0) 11 scores)))
         = Some (map (present md) (slice (Suc 0) 11 scores))"
proof -
  have "fst (slice (Suc 0) 11 scores ! i) < length md"
    if "i < length (slice (Suc 0) 11 scores)" for i
    using assms that nth_mem by blast
  then have "\<forall>(i, idx) \<in> set (enumerate 0 (map fst (slice (Suc 0) 11 scores))).
          idx < length md \<and> Suc i < length scores"
    by (auto simp: in_set_enumerate_eq slice_1_nth)
  from build_recommendations_total [OF this] show ?thesis
    by (simp add: enumerate_slice_items)
qed

text \<open>What the in-memory path answers when the title is in the catalog.\<close>

lemma pickle_recommendations_success:
  assumes "pickle_recommendations md sm t = Recommendations sel recs src"
  shows "\<exists>i. index_of_title md t = Some i \<and> i < length sm \<and> sel = t \<and> src = ''pickle''
             \<and> recs = map (present md) (top_pairs (sm ! i))"
  using assms
  by (auto simp: pickle_recommendations_def top_pairs_def Let_def nth_opt_Some_iff
           split: option.splits dest!: build_recommendations_slice_Some)

lemma pickle_recommendations_eq:
  assumes "index_of_title md t = Some i" "i < length sm" "length (sm ! i) \<le> length md"
  shows "pickle_recommendations md sm t
         = Recommendations t (map (present md) (top_pairs (sm ! i))) ''pickle''"
proof -
  let ?scores = "sorted_reverse snd (enumerate 0 (sm ! i))"
  have "\<forall>p \<in> set (top_pairs (sm ! i)). fst p < length md"
    using top_pairs_entry [of _ "sm ! i"] assms(3) by fastforce
  then have "\<forall>p \<in> set (slice (Suc 0) 11 ?scores). fst p < length md"
    by (simp add: top_pairs_def)
  then have "build_recommendations md ?scores (enumerate 0 (map fst (slice (Suc 0) 11 ?scores)))
     = Some (map (present md) (slice (Suc 0) 11 ?scores))"
    by (rule build_recommendations_slice_total)
  with assms show ?thesis
    by (simp add: pickle_recommendations_def nth_opt_def top_pairs_def Let_def)
qed

section \<open>What the request handler reads and writes\<close>

lemma log_request_tables:
  "movies (log_request outcome m req db) = movies db \<and>
   recommendations (log_request outcome m req db) = recommendations db"
  by (cases outcome) (simp_all add: log_request_def)

lemma recommend_movies_tables:
  "movies (snd (recommend_movies g req outcome db)) = movies db \<and>
   recommendations (snd (recommend_movies g req outcome db)) = recommendations db"
  by (simp add: recommend_movies_def log_request_tables Let_def split: option.splits)

lemma recommend_movies_response_reads:
  assumes "movies db' = movies db" "recommendations db' = recommendations db"
  shows "fst (recommend_movies g req outcome' db') = fst (recommend_movies g req outcome db)"
  using assms
  by (simp add: recommend_movies_def query_recommendations_def Let_def split: option.splits)

section \<open>The movie pass\<close>

lemma next_movie_id_fresh: "m \<in> set ms \<Longrightarrow> m_id m < next_movie_id ms"
  using fold_max_bounds [of 0 "map m_id ms"] by (auto simp: next_movie_id_def less_Suc_eq_le)

lemma next_movie_id_positive: "next_movie_id ms \<noteq> 0"
  by (simp add: next_movie_id_def)

lemma store_movie_other_tables:
  "recommendations (fst (store_movie row st)) = recommendations (fst st)
   \<and> similarity_matrix_table (fst (store_movie row st)) = similarity_matrix_table (fst st)
   \<and> history (fst (store_movie row st)) = history (fst st)"
  by (auto simp: store_movie_def split: prod.splits option.splits)

lemma store_movie_ok:
  assumes "movies_ok (movies (fst st))"
  shows "movies_ok (movies (fst (store_movie row st)))"
proof (cases st)
  case (fields db a b)
  show ?thesis
  proof (cases "find (\<lambda>m. m_title m = row_title row) (movies db)")
    case None
    then have "row_title row \<notin> m_title ` set (movies db)"
      by (auto simp: find_None_iff)
    moreover have "next_movie_id (movies db) \<notin> m_id ` set (movies db)"
      using next_movie_id_fresh by fastforce
    ultimately show ?thesis
      using assms fields None
      by (simp add: store_movie_def new_movie_def movies_ok_def next_movie_id_positive)
  next
    case (Some m)
    with assms fields show ?thesis by (simp add: store_movie_def new_movie_def)
  qed
qed

lemma store_movie_titles:
  "m_title ` set (movies (fst (store_movie row st)))
   = insert (row_title row) (m_title ` set (movies (fst st)))"
proof (cases st)
  case (fields db a b)
  show ?thesis
  proof (cases "find (\<lambda>m. m_title m = row_title row) (movies db)")
    case None
    with fields show ?thesis by (simp add: store_movie_def new_movie_def)
  next
    case (Some m)
    then have "m \<in> set (movies db)" "m_title m = row_title row"
      by (auto simp: find_Some_iff)
    then have "row_title row \<in> m_title ` set (movies db)"
      by force
    with fields Some show ?thesis by (auto simp: store_movie_def new_movie_def)
  qed
qed

lemma fold_store_movie_titles:
  "m_title ` set (movies (fst (fold store_movie md st)))
   = row_title ` set md \<union> m_title ` set (movies (fst st))"
  by (induction md arbitrary: st) (auto simp: store_movie_titles)

lemma fold_store_movie_ok:
  "movies_ok (movies (fst st)) \<Longrightarrow> movies_ok (movies (fst (fold store_movie md st)))"
  by (induction md arbitrary: st) (auto simp: store_movie_ok)

lemma fold_store_movie_other_tables:
  "recommendations (fst (fold store_movie md st)) = recommendations (fst st)
   \<and> similarity_matrix_table (fst (fold store_movie md st)) = similarity_matrix_table (fst st)
   \<and> history (fst (fold store_movie md st)) = history (fst st)"
  by (induction md arbitrary: st) (auto simp: store_movie_other_tables)

lemma store_movies_facts:
  assumes "movies_ok (movies db)"
  shows "movies_ok (movies (fst (store_movies md db)))"
    and "row_title ` set md \<subseteq> m_title ` set (movies (fst (store_movies md db)))"
    and "recommendations (fst (store_movies md db)) = recommendations db"
    and "similarity_matrix_table (fst (store_movies md db)) = similarity_matrix_table db"
  using assms
  by (simp_all add: store_movies_def fold_store_movie_ok fold_store_movie_titles
        fold_store_movie_other_tables)

section \<open>The title-to-id dictionary\<close>

lemma movie_id_map_snoc:
  "movie_id_map (ms @ [m]) = (movie_id_map ms)(m_title m \<mapsto> m_id m)"
  by (simp add: movie_id_map_def)

lemma movie_id_map_member:
  "distinct (map m_title ms) \<Longrightarrow> m \<in> set ms \<Longrightarrow> movie_id_map ms (m_title m) = Some (m_id m)"
proof (induction ms rule: rev_induct)
  case Nil
  then show ?case by simp
next
  case (snoc a ms)
  show ?case
  proof (cases "m = a")
    case True
    then show ?thesis by (simp add: movie_id_map_snoc)
  next
    case False
    with snoc.prems have "m \<in> set ms" "m_title a \<notin> m_title ` set ms" by auto
    then have "m_title m \<noteq> m_title a" by (metis image_eqI)
    with snoc \<open>m \<in> set ms\<close> show ?thesis by (simp add: movie_id_map_snoc)
  qed
qed

lemma movie_id_map_Some:
  "movie_id_map ms t = Some k \<Longrightarrow> \<exists>m \<in> set ms. m_title m = t \<and> m_id m = k"
proof (induction ms rule: rev_induct)
  case Nil
  then show ?case by (simp add: movie_id_map_def)
next
  case (snoc a ms)
  then show ?case
    by (cases "m_title a = t") (auto simp: movie_id_map_snoc)
qed

lemma truthy_id_Some: "truthy_id v = Some k \<Longrightarrow> v = Some k"
  by (auto simp: truthy_id_def split: option.splits if_splits)

lemma ids_ok_movies:
  assumes ok: "movies_ok ms" and titles: "row_title ` set md \<subseteq> m_title ` set ms"
    and dist: "distinct (map row_title md)"
  shows "ids_ok md (movie_id_map ms)"
proof -
  have pick: "\<exists>m \<in> set ms. m_title m = row_title (md ! i) \<and>
                movie_id_map ms (row_title (md ! i)) = Some (m_id m) \<and> m_id m \<noteq> 0"
    if "i < length md" for i
  proof -
    from that have "row_title (md ! i) \<in> row_title ` set md" by simp
    with titles have "row_title (md ! i) \<in> m_title ` set ms" by auto
    then obtain m where m: "m \<in> set ms" "m_title m = row_title (md ! i)"
      by (metis imageE)
    from ok m(1) have "movie_id_map ms (m_title m) = Some (m_id m)"
      unfolding movies_ok_def by (intro movie_id_map_member) simp_all
    moreover from ok m(1) have "m_id m \<noteq> 0"
      unfolding movies_ok_def by force
    ultimately show ?thesis using m by auto
  qed
  have "i = j" if "i < length md" "j < length md"
    "movie_id_map ms (row_title (md ! i)) = movie_id_map ms (row_title (md ! j))" for i j
  proof -
    from pick [OF that(1)] pick [OF that(2)] that(3) obtain m m' where
      "m \<in> set ms" "m' \<in> set ms" "m_title m = row_title (md ! i)"
      "m_title m' = row_title (md ! j)" "m_id m = m_id m'"
      by auto
    moreover from this ok have "m = m'"
      by (auto simp: movies_ok_def dest: distinct_map_eq)
    ultimately have "map row_title md ! i = map row_title md ! j"
      using that by simp
    with dist that show ?thesis
      using nth_eq_iff_index_eq [of "map row_title md" i j] by (simp del: nth_map)
  qed
  with pick show ?thesis
    unfolding ids_ok_def by blast
qed

lemma ids_ok_lookup:
  assumes "ids_ok md idmap" "i < length md"
  shows "\<exists>k. k \<noteq> 0 \<and> idmap (row_title (md ! i)) = Some k
             \<and> truthy_id (idmap (row_title (md ! i))) = Some k"
  using assms by (auto simp: ids_ok_def truthy_id_def)

lemma ids_ok_inj:
  assumes "ids_ok md idmap" "i < length md" "j < length md"
    "the (idmap (row_title (md ! i))) = the (idmap (row_title (md ! j)))"
  shows "i = j"
proof -
  from assms(1-3) obtain k l where "idmap (row_title (md ! i)) = Some k"
    "idmap (row_title (md ! j)) = Some l"
    unfolding ids_ok_def by blast
  with assms show ?thesis unfolding ids_ok_def by auto
qed

section \<open>The recommendation pass\<close>

subsection \<open>The inner loop\<close>

lemma create_recommendation_movies [simp]:
  "movies (create_recommendation md idmap s item db) = movies db"
  by (simp add: create_recommendation_def split: prod.splits option.splits)

lemma create_recommendation_pairs [simp]:
  "similarity_matrix_table (create_recommendation md idmap s item db) = similarity_matrix_table db"
  by (simp add: create_recommendation_def split: prod.splits option.splits)

lemma create_recommendation_other_source:
  "s' \<noteq> s \<Longrightarrow> rows_of (create_recommendation md idmap s' item db) s = rows_of db s"
  by (simp add: create_recommendation_def rows_of_def split: prod.splits option.splits)

lemma create_recommendation_sources:
  "set (recommendations (create_recommendation md idmap s item db))
   \<subseteq> set (recommendations db) \<union> {r. source_movie_id r = s}"
  by (auto simp: create_recommendation_def split: prod.splits option.splits)

lemma create_recommendation_adds:
  assumes "idx < length md" "idmap (row_title (md ! idx)) = Some k" "k \<noteq> 0"
    "\<forall>r \<in> set (recommendations db). source_movie_id r = s \<longrightarrow> recommended_movie_id r \<noteq> k"
  shows "create_recommendation md idmap s (rnk, idx, sc) db
         = db\<lparr>recommendations := recommendations db @ expected_rows md idmap s [(rnk, idx, sc)]\<rparr>"
proof -
  have "find (\<lambda>r. source_movie_id r = s \<and> recommended_movie_id r = k) (recommendations db) = None"
    using assms(4) by (auto simp: find_None_iff)
  with assms(1-3) show ?thesis
    by (simp add: create_recommendation_def nth_opt_def truthy_id_def expected_rows_def)
qed

lemma fold_create_recommendation:
  assumes "ids_ok md idmap"
    and "\<forall>p \<in> set pairs. fst p < length md"
    and "distinct (map fst pairs)"
    and "\<forall>r \<in> set (recommendations db). source_movie_id r = s \<longrightarrow>
           recommended_movie_id r \<notin> (\<lambda>p. the (idmap (row_title (md ! fst p)))) ` set pairs"
  shows "fold (create_recommendation md idmap s) (enumerate n pairs) db
         = db\<lparr>recommendations :=
               recommendations db @ expected_rows md idmap s (enumerate n pairs)\<rparr>"
  using assms(2-4)
proof (induction pairs arbitrary: n db)
  case Nil
  then show ?case by (simp add: expected_rows_def)
next
  case (Cons p pairs)
  obtain idx sc where p: "p = (idx, sc)" by (cases p)
  from Cons.prems(1) p have idx: "idx < length md" by simp
  from ids_ok_lookup [OF assms(1) idx] obtain k where
    k: "k \<noteq> 0" "idmap (row_title (md ! idx)) = Some k" by blast
  let ?db = "db\<lparr>recommendations := recommendations db @ expected_rows md idmap s [(n, idx, sc)]\<rparr>"
  have step: "create_recommendation md idmap s (n, idx, sc) db = ?db"
    using Cons.prems(3) p k idx by (intro create_recommendation_adds) auto
  have fresh: "\<forall>r \<in> set (recommendations ?db). source_movie_id r = s \<longrightarrow>
           recommended_movie_id r \<notin> (\<lambda>p. the (idmap (row_title (md ! fst p)))) ` set pairs"
  proof (intro ballI impI notI)
    fix r assume r: "r \<in> set (recommendations ?db)" "source_movie_id r = s"
      and bad: "recommended_movie_id r \<in> (\<lambda>p. the (idmap (row_title (md ! fst p)))) ` set pairs"
    from bad obtain q where q: "q \<in> set pairs"
      "recommended_movie_id r = the (idmap (row_title (md ! fst q)))" by auto
    show False
    proof (cases "r \<in> set (recommendations db)")
      case True
      with Cons.prems(3) r(2) q show ?thesis by auto
    next
      case False
      with r(1) have "recommended_movie_id r = the (idmap (row_title (md ! idx)))"
        by (auto simp: expected_rows_def)
      with q have "the (idmap (row_title (md ! idx))) = the (idmap (row_title (md ! fst q)))"
        by simp
      moreover from q Cons.prems(1) have "fst q < length md" by simp
      ultimately have "idx = fst q"
        using ids_ok_inj [OF assms(1) idx] by blast
      with q(1) Cons.prems(2) p show ?thesis by force
    qed
  qed
  have "fold (create_recommendation md idmap s) (enumerate (Suc n) pairs) ?db
        = ?db\<lparr>recommendations :=
               recommendations ?db @ expected_rows md idmap s (enumerate (Suc n) pairs)\<rparr>"
    using Cons.prems(1,2) fresh by (intro Cons.IH) auto
  with step p show ?case
    by (simp add: expected_rows_def)
qed

lemma fold_create_recommendation_movies [simp]:
  "movies (fold (create_recommendation md idmap s) items db) = movies db"
  by (induction items arbitrary: db) simp_all

lemma fold_create_recommendation_pairs [simp]:
  "similarity_matrix_table (fold (create_recommendation md idmap s) items db)
   = similarity_matrix_table db"
  by (induction items arbitrary: db) simp_all

lemma fold_create_recommendation_other_source:
  "s' \<noteq> s \<Longrightarrow> rows_of (fold (create_recommendation md idmap s') items db) s = rows_of db s"
  by (induction items arbitrary: db) (simp_all add: create_recommendation_other_source)

lemma fold_create_recommendation_sources:
  "set (recommendations (fold (create_recommendation md idmap s) items db))
   \<subseteq> set (recommendations db) \<union> {r. source_movie_id r = s}"
proof (induction items arbitrary: db)
  case Nil
  then show ?case by simp
next
  case (Cons item items)
  from Cons [of "create_recommendation md idmap s item db"]
    create_recommendation_sources [of md idmap s item db]
  show ?case by auto
qed

subsection \<open>The outer loop\<close>

lemma migrate_similarity_row_movies [simp]:
  "movies (migrate_similarity_row md sm idmap entry db) = movies db"
  by (simp add: migrate_similarity_row_def Let_def split: prod.splits option.splits)

lemma migrate_similarity_row_pairs [simp]:
  "similarity_matrix_table (migrate_similarity_row md sm idmap entry db) = similarity_matrix_table db"
  by (simp add: migrate_similarity_row_def Let_def split: prod.splits option.splits)

lemma migrate_similarity_row_other_source:
  assumes "idmap (row_title row) \<noteq> Some s"
  shows "rows_of (migrate_similarity_row md sm idmap (j, row) db) s = rows_of db s"
proof (cases "truthy_id (idmap (row_title row))")
  case None
  then show ?thesis by (simp add: migrate_similarity_row_def)
next
  case (Some s')
  with assms have "s' \<noteq> s" by (auto dest: truthy_id_Some)
  with Some show ?thesis
    by (simp add: migrate_similarity_row_def Let_def fold_create_recommendation_other_source
             split: option.splits)
qed

lemma migrate_similarity_row_sources:
  "set (recommendations (migrate_similarity_row md sm idmap (j, row) db))
   \<subseteq> set (recommendations db) \<union> {r. idmap (row_title row) = Some (source_movie_id r)}"
proof (cases "truthy_id (idmap (row_title row))")
  case None
  then show ?thesis by (simp add: migrate_similarity_row_def)
next
  case (Some s)
  then have "idmap (row_title row) = Some s" by (rule truthy_id_Some)
  with Some fold_create_recommendation_sources [of md idmap s _ db] show ?thesis
    by (auto simp: migrate_similarity_row_def Let_def split: option.splits)
qed

lemma rows_of_append:
  "rows_of (db\<lparr>recommendations := recommendations db @ expected_rows md idmap s items\<rparr>) s
   = rows_of db s @ expected_rows md idmap s items"
  by (simp add: rows_of_def expected_rows_def filter_map comp_def case_prod_unfold)

lemma migrate_similarity_row_source:
  assumes ok: "ids_ok md idmap" and i: "i < length md" "i < length sm"
    and len: "length (sm ! i) \<le> length md"
    and s: "idmap (row_title (md ! i)) = Some s"
    and empty: "rows_of db s = []"
  shows "rows_of (migrate_similarity_row md sm idmap (i, md ! i) db) s
         = expected_rows md idmap s (enumerate 1 (top_pairs (sm ! i)))"
proof -
  from ids_ok_lookup [OF ok i(1)] s have t: "truthy_id (idmap (row_title (md ! i))) = Some s"
    by auto
  have bound: "\<forall>p \<in> set (top_pairs (sm ! i)). fst p < length md"
    using top_pairs_entry [of _ "sm ! i"] len by fastforce
  have fresh: "\<forall>r \<in> set (recommendations db). source_movie_id r = s \<longrightarrow>
      recommended_movie_id r \<notin> (\<lambda>p. the (idmap (row_title (md ! fst p)))) ` set (top_pairs (sm ! i))"
    using empty by (auto simp: rows_of_def filter_empty_conv)
  have "fold (create_recommendation md idmap s) (enumerate 1 (top_pairs (sm ! i))) db
        = db\<lparr>recommendations :=
               recommendations db @ expected_rows md idmap s (enumerate 1 (top_pairs (sm ! i)))\<rparr>"
    using ok bound distinct_top_pairs fresh by (rule fold_create_recommendation)
  moreover have "migrate_similarity_row md sm idmap (i, md ! i) db
        = fold (create_recommendation md idmap s) (enumerate 1 (top_pairs (sm ! i))) db"
    using t i(2) by (simp add: migrate_similarity_row_def nth_opt_def top_pairs_def Let_def)
  ultimately show ?thesis
    using empty rows_of_append [of db md idmap s] by simp
qed

lemma fold_migrate_similarity_row_movies [simp]:
  "movies (fold (migrate_similarity_row md sm idmap) es db) = movies db"
  by (induction es arbitrary: db) simp_all

lemma fold_migrate_similarity_row:
  assumes ok: "ids_ok md idmap" and i: "i < length md" "i < length sm"
    and len: "length (sm ! i) \<le> length md"
    and s: "idmap (row_title (md ! i)) = Some s"
  shows "\<forall>e \<in> set es. fst e < length md \<and> snd e = md ! fst e \<Longrightarrow> distinct (map fst es) \<Longrightarrow>
         rows_of db s = [] \<or> i \<notin> fst ` set es \<Longrightarrow>
         rows_of (fold (migrate_similarity_row md sm idmap) es db) s
         = rows_of db s @
           (if i \<in> fst ` set es then expected_rows md idmap s (enumerate 1 (top_pairs (sm ! i)))
            else [])"
proof (induction es arbitrary: db)
  case Nil
  then show ?case by simp
next
  case (Cons e es)
  obtain j where e: "e = (j, md ! j)" "j < length md"
    using Cons.prems(1) by (cases e) auto
  show ?case
  proof (cases "j = i")
    case True
    with Cons.prems(2) e have notin: "i \<notin> fst ` set es" by auto
    from True Cons.prems(3) e have empty: "rows_of db s = []" by auto
    have "rows_of (migrate_similarity_row md sm idmap e db) s
          = expected_rows md idmap s (enumerate 1 (top_pairs (sm ! i)))"
      using True e migrate_similarity_row_source [OF ok i len s empty] by simp
    moreover have "rows_of (fold (migrate_similarity_row md sm idmap) es
                     (migrate_similarity_row md sm idmap e db)) s
          = rows_of (migrate_similarity_row md sm idmap e db) s @ []"
      using Cons.IH [of "migrate_similarity_row md sm idmap e db"] Cons.prems(1,2) notin
      by simp
    ultimately show ?thesis using True e empty by simp
  next
    case False
    have "idmap (row_title (md ! j)) \<noteq> Some s"
    proof
      assume "idmap (row_title (md ! j)) = Some s"
      with s ok e(2) i(1) have "j = i" unfolding ids_ok_def by metis
      with False show False by simp
    qed
    then have same: "rows_of (migrate_similarity_row md sm idmap e db) s = rows_of db s"
      using e by (simp add: migrate_similarity_row_other_source)
    have "rows_of (fold (migrate_similarity_row md sm idmap) es
                     (migrate_similarity_row md sm idmap e db)) s
          = rows_of (migrate_similarity_row md sm idmap e db) s @
            (if i \<in> fst ` set es then expected_rows md idmap s (enumerate 1 (top_pairs (sm ! i)))
             else [])"
      using Cons.prems same False e by (intro Cons.IH) auto
    with same False e show ?thesis by simp
  qed
qed

lemma fold_migrate_similarity_row_sources:
  "set (recommendations (fold (migrate_similarity_row md sm idmap) es db))
   \<subseteq> set (recommendations db)
     \<union> {r. \<exists>e \<in> set es. idmap (row_title (snd e)) = Some (source_movie_id r)}"
proof (induction es arbitrary: db)
  case Nil
  then show ?case by simp
next
  case (Cons e es)
  obtain j row where e: "e = (j, row)" by (cases e)
  from Cons [of "migrate_similarity_row md sm idmap e db"]
    migrate_similarity_row_sources [of md sm idmap j row db] e
  show ?case by auto
qed

lemma migrate_similarity_data_rows:
  assumes ok: "ids_ok md (movie_id_map (movies db))" and i: "i < length md" "i < length sm"
    and len: "length (sm ! i) \<le> length md"
    and s: "movie_id_map (movies db) (row_title (md ! i)) = Some s"
    and empty: "rows_of db s = []"
  shows "rows_of (migrate_similarity_data md sm db) s
         = expected_rows md (movie_id_map (movies db)) s (enumerate 1 (top_pairs (sm ! i)))"
proof -
  have "i \<in> fst ` set (enumerate 0 md)"
    using i(1) by (simp add: image_iff in_set_enumerate_eq Bex_def)
  with fold_migrate_similarity_row [OF ok i len s enumerate_entries, of db] empty
  show ?thesis by (simp add: migrate_similarity_data_def)
qed

lemma migrate_similarity_data_movies [simp]:
  "movies (migrate_similarity_data md sm db) = movies db"
  by (simp add: migrate_similarity_data_def)

lemma migrate_similarity_data_pairs [simp]:
  "similarity_matrix_table (migrate_similarity_data md sm db) = similarity_matrix_table db"
proof -
  have "similarity_matrix_table (fold (migrate_similarity_row md sm idmap) es db)
        = similarity_matrix_table db" for idmap es
    by (induction es arbitrary: db) simp_all
  then show ?thesis by (simp add: migrate_similarity_data_def)
qed

section \<open>The similarity-matrix pass\<close>

lemma store_similarity_tables [simp]:
  "movies (store_similarity sm idmap e1 e2 db) = movies db"
  "recommendations (store_similarity sm idmap e1 e2 db) = recommendations db"
  by (simp_all add: store_similarity_def split: prod.splits option.splits)

lemma fold_store_similarity_tables [simp]:
  "movies (fold (store_similarity sm idmap e1) es db) = movies db"
  "recommendations (fold (store_similarity sm idmap e1) es db) = recommendations db"
  by (induction es arbitrary: db) simp_all

lemma fold_fold_store_similarity_tables [simp]:
  "movies (fold (\<lambda>e1. fold (store_similarity sm idmap e1) es) es' db) = movies db"
  "recommendations (fold (\<lambda>e1. fold (store_similarity sm idmap e1) es) es' db)
   = recommendations db"
  by (induction es' arbitrary: db) simp_all

lemma migrate_similarity_matrix_tables [simp]:
  "movies (migrate_similarity_matrix md sm db) = movies db"
  "recommendations (migrate_similarity_matrix md sm db) = recommendations db"
  by (simp_all add: migrate_similarity_matrix_def)

lemma matrix_entry_square:
  assumes "length sm = length md" "\<forall>row \<in> set sm. length row = length md"
    "i < length md" "j < length md"
  shows "matrix_entry sm i j = Some (sm ! i ! j)"
  using assms by (simp add: matrix_entry_def nth_opt_def)

lemma store_similarity_grows:
  "set (similarity_matrix_table db) \<subseteq> set (similarity_matrix_table (store_similarity sm idmap e1 e2 db))"
  by (auto simp: store_similarity_def split: prod.splits option.splits)

lemma fold_store_similarity_grows:
  "set (similarity_matrix_table db)
   \<subseteq> set (similarity_matrix_table (fold (store_similarity sm idmap e1) es db))"
proof (induction es arbitrary: db)
  case Nil
  then show ?case by simp
next
  case (Cons e es)
  from Cons [of "store_similarity sm idmap e1 e db"] store_similarity_grows [of db sm idmap e1 e]
  show ?case by auto
qed

lemma store_similarity_writes:
  assumes "i < j" and "truthy_id (idmap (row_title row1)) = Some a"
    and "truthy_id (idmap (row_title row2)) = Some b"
    and "matrix_entry sm i j = Some sc" and "0.01 < sc"
  shows "\<exists>p \<in> set (similarity_matrix_table (store_similarity sm idmap (i, row1) (j, row2) db)).
           movie1_id p = a \<and> movie2_id p = b"
proof (cases "find (\<lambda>p. movie1_id p = a \<and> movie2_id p = b) (similarity_matrix_table db)")
  case None
  with assms show ?thesis by (simp add: store_similarity_def)
next
  case (Some p)
  then have "p \<in> set (similarity_matrix_table db)" "movie1_id p = a \<and> movie2_id p = b"
    by (auto simp: find_Some_iff)
  moreover from Some assms have "store_similarity sm idmap (i, row1) (j, row2) db = db"
    by (simp add: store_similarity_def)
  ultimately show ?thesis by auto
qed

lemma store_similarity_justified:
  assumes inv: "\<forall>p \<in> set (similarity_matrix_table db). pair_justified md sm idmap p"
    and e1: "e1 \<in> set (enumerate 0 md)" and e2: "e2 \<in> set (enumerate 0 md)"
  shows "\<forall>p \<in> set (similarity_matrix_table (store_similarity sm idmap e1 e2 db)).
           pair_justified md sm idmap p"
proof -
  from e1 enumerate_entries [of md] have "fst e1 < length md \<and> snd e1 = md ! fst e1"
    by blast
  moreover from e2 enumerate_entries [of md] have "fst e2 < length md \<and> snd e2 = md ! fst e2"
    by blast
  ultimately obtain i j where
    e: "e1 = (i, md ! i)" "i < length md" "e2 = (j, md ! j)" "j < length md"
    by (metis prod.collapse)
  have "pair_justified md sm idmap
          \<lparr>movie1_id = a, movie2_id = b, pair_score = sc, algorithm = ''cosine_similarity''\<rparr>"
    if "i < j" "truthy_id (idmap (row_title (md ! i))) = Some a"
       "truthy_id (idmap (row_title (md ! j))) = Some b"
       "matrix_entry sm i j = Some sc" "0.01 < sc" for a b sc
  proof -
    from that(2,3) have "idmap (row_title (md ! i)) = Some a" "idmap (row_title (md ! j)) = Some b"
      by (auto dest: truthy_id_Some)
    with that(1,4,5) e(4) show ?thesis
      unfolding pair_justified_def
      by (intro exI [of _ i] exI [of _ j]) simp
  qed
  with inv e show ?thesis
    by (auto simp: store_similarity_def split: option.splits)
qed

lemma migrate_similarity_matrix_justified:
  assumes "similarity_matrix_table db = []"
  shows "\<forall>p \<in> set (similarity_matrix_table (migrate_similarity_matrix md sm db)).
           pair_justified md sm (movie_id_map (movies db)) p"
  unfolding migrate_similarity_matrix_def
proof (rule fold_invariant)
  show "\<forall>p \<in> set (similarity_matrix_table db). pair_justified md sm (movie_id_map (movies db)) p"
    using assms by simp
next
  fix e1 and s :: database
  assume e1: "e1 \<in> set (enumerate 0 md)"
    and s: "\<forall>p \<in> set (similarity_matrix_table s). pair_justified md sm (movie_id_map (movies db)) p"
  show "\<forall>p \<in> set (similarity_matrix_table
            (fold (store_similarity sm (movie_id_map (movies db)) e1) (enumerate 0 md) s)).
          pair_justified md sm (movie_id_map (movies db)) p"
  proof (rule fold_invariant)
    show "\<forall>p \<in> set (similarity_matrix_table s). pair_justified md sm (movie_id_map (movies db)) p"
      by (rule s)
  next
    fix e2 and u :: database
    assume "e2 \<in> set (enumerate 0 md)"
      and "\<forall>p \<in> set (similarity_matrix_table u). pair_justified md sm (movie_id_map (movies db)) p"
    then show "\<forall>p \<in> set (similarity_matrix_table
                  (store_similarity sm (movie_id_map (movies db)) e1 e2 u)).
                pair_justified md sm (movie_id_map (movies db)) p"
      using e1 by (intro store_similarity_justified)
  qed
qed

lemma migrate_similarity_matrix_writes:
  assumes ij: "i < j" "j < length md"
    and a: "truthy_id (movie_id_map (movies db) (row_title (md ! i))) = Some a"
    and b: "truthy_id (movie_id_map (movies db) (row_title (md ! j))) = Some b"
    and sc: "matrix_entry sm i j = Some sc" "0.01 < sc"
  shows "\<exists>p \<in> set (similarity_matrix_table (migrate_similarity_matrix md sm db)).
           movie1_id p = a \<and> movie2_id p = b"
proof -
  let ?idmap = "movie_id_map (movies db)"
  let ?Q = "\<lambda>s. \<exists>p \<in> set (similarity_matrix_table s). movie1_id p = a \<and> movie2_id p = b"
  have mem: "(i, md ! i) \<in> set (enumerate 0 md)" "(j, md ! j) \<in> set (enumerate 0 md)"
    using ij by (simp_all add: in_set_enumerate_eq)
  have keep: "?Q (store_similarity sm ?idmap e1 e2 s)" if "?Q s" for e1 e2 s
    using that store_similarity_grows [of s sm ?idmap e1 e2] by blast
  have inner: "?Q (fold (store_similarity sm ?idmap (i, md ! i)) (enumerate 0 md) s)" for s
  proof (rule fold_establish [where x = "(j, md ! j)"])
    show "(j, md ! j) \<in> set (enumerate 0 md)" by (rule mem)
    show "?Q (store_similarity sm ?idmap (i, md ! i) (j, md ! j) u)" for u
      using ij(1) a b sc by (rule store_similarity_writes)
    show "?Q (store_similarity sm ?idmap (i, md ! i) y u)" if "?Q u" for y u
      using that by (rule keep)
  qed
  have "?Q (fold (\<lambda>e1. fold (store_similarity sm ?idmap e1) (enumerate 0 md)) (enumerate 0 md) db)"
  proof (rule fold_establish [where x = "(i, md ! i)"])
    show "(i, md ! i) \<in> set (enumerate 0 md)" by (rule mem)
    show "?Q (fold (store_similarity sm ?idmap (i, md ! i)) (enumerate 0 md) u)" for u
      by (rule inner)
    show "?Q (fold (store_similarity sm ?idmap y) (enumerate 0 md) u)" if "?Q u" for y u
      using that fold_store_similarity_grows [of u sm ?idmap y "enumerate 0 md"] by blast
  qed
  then show ?thesis by (simp add: migrate_similarity_matrix_def)
qed

section \<open>The whole migration\<close>

lemma migrate_all_movies: "movies (migrate_all md sm db) = movies (fst (store_movies md db))"
  by (simp add: migrate_all_def)

lemma migrate_all_rows:
  "rows_of (migrate_all md sm db) s = rows_of (migrate_similarity_data md sm (fst (store_movies md db))) s"
  by (simp add: migrate_all_def rows_of_def)

text \<open>After the migration of a catalog with distinct titles into a database without
  Recommendation rows, the rows of the source at catalog index \<open>i\<close> are exactly the
  ranked candidates of its matrix row, in order, with ranks from 1.\<close>

lemma migrate_all_stores_top_pairs:
  assumes ok: "movies_ok (movies db)" and none: "recommendations db = []"
    and dist: "distinct (map row_title md)"
    and i: "i < length md" "i < length sm" and len: "length (sm ! i) \<le> length md"
    and src: "find (\<lambda>m. m_title m = row_title (md ! i)) (movies (migrate_all md sm db)) = Some source"
  shows "rows_of (migrate_all md sm db) (m_id source)
         = expected_rows md (movie_id_map (movies (migrate_all md sm db))) (m_id source)
             (enumerate 1 (top_pairs (sm ! i)))"
proof -
  let ?db1 = "fst (store_movies md db)"
  note facts = store_movies_facts [OF ok, of md]
  have ids: "ids_ok md (movie_id_map (movies ?db1))"
    using facts(1,2) dist by (rule ids_ok_movies)
  from src have "source \<in> set (movies ?db1)" "m_title source = row_title (md ! i)"
    by (auto simp: migrate_all_movies find_Some_iff)
  with facts(1) have s: "movie_id_map (movies ?db1) (row_title (md ! i)) = Some (m_id source)"
    using movie_id_map_member [of "movies ?db1" source] by (simp add: movies_ok_def)
  have "rows_of ?db1 (m_id source) = []"
    using facts(3) none by (simp add: rows_of_def)
  from migrate_similarity_data_rows [OF ids i len s this] show ?thesis
    by (simp add: migrate_all_rows migrate_all_movies)
qed

lemma migrate_all_rows_outside_catalog:
  assumes ok: "movies_ok (movies db)" and none: "recommendations db = []"
    and src: "source \<in> set (movies (migrate_all md sm db))"
    and out: "m_title source \<notin> row_title ` set md"
  shows "rows_of (migrate_all md sm db) (m_id source) = []"
proof (rule ccontr)
  let ?db1 = "fst (store_movies md db)"
  note facts = store_movies_facts [OF ok, of md]
  assume "rows_of (migrate_all md sm db) (m_id source) \<noteq> []"
  then have "rows_of (migrate_similarity_data md sm ?db1) (m_id source) \<noteq> []"
    by (simp add: migrate_all_rows)
  then obtain r where r: "r \<in> set (recommendations (migrate_similarity_data md sm ?db1))"
    "source_movie_id r = m_id source"
    by (auto simp: rows_of_def filter_empty_conv)
  from r(1) fold_migrate_similarity_row_sources
       [of md sm "movie_id_map (movies ?db1)" "enumerate 0 md" ?db1] facts(3) none
  obtain e where e: "e \<in> set (enumerate 0 md)"
    "movie_id_map (movies ?db1) (row_title (snd e)) = Some (source_movie_id r)"
    by (auto simp: migrate_similarity_data_def)
  from movie_id_map_Some [OF e(2)] r(2) obtain m where
    m: "m \<in> set (movies ?db1)" "m_title m = row_title (snd e)" "m_id m = m_id source"
    by auto
  from src have "source \<in> set (movies ?db1)" by (simp add: migrate_all_movies)
  with m facts(1) have "m = source"
    unfolding movies_ok_def by (meson distinct_map_eq)
  moreover from e(1) have "snd e \<in> set md"
    by (metis in_set_enumerate_eq diff_zero add_0_right nth_mem)
  ultimately show False using m(2) out by (metis image_eqI)
qed

section \<open>The persisted answer\<close>

lemma rank_expected_rows:
  "map rank (expected_rows md idmap s (enumerate n pairs)) = [n..<n + length pairs]"
proof -
  have "map rank (expected_rows md idmap s items) = map fst items" for items
    by (induction items) (auto simp: expected_rows_def)
  then show ?thesis by simp
qed

lemma score_expected_rows:
  "map similarity_score (expected_rows md idmap s (enumerate n pairs)) = map snd pairs"
proof -
  have "map similarity_score (expected_rows md idmap s items) = map (snd \<circ> snd) items" for items
    by (induction items) (auto simp: expected_rows_def)
  then show ?thesis by (simp flip: map_map)
qed

lemma length_expected_rows [simp]: "length (expected_rows md idmap s items) = length items"
  by (simp add: expected_rows_def)

lemma query_expected_rows:
  assumes "rows_of db s = expected_rows md idmap s (enumerate n pairs)" "length pairs \<le> 10"
  shows "query_recommendations db s = expected_rows md idmap s (enumerate n pairs)"
proof -
  have "sorted (map rank (expected_rows md idmap s (enumerate n pairs)))"
    by (simp add: rank_expected_rows)
  then have "sort_key rank (expected_rows md idmap s (enumerate n pairs))
             = expected_rows md idmap s (enumerate n pairs)"
    by (rule sort_key_id_if_sorted)
  with assms show ?thesis
    by (simp add: query_recommendations_def rows_of_def)
qed

lemma movie_of_catalog_row:
  assumes ok: "movies_ok ms" and titles: "row_title ` set md \<subseteq> m_title ` set ms"
    and idx: "idx < length md"
  shows "\<exists>m. find (\<lambda>m. m_id m = the (movie_id_map ms (row_title (md ! idx)))) ms = Some m
             \<and> m_title m = row_title (md ! idx)"
proof -
  from idx have "row_title (md ! idx) \<in> row_title ` set md" by simp
  with titles have "row_title (md ! idx) \<in> m_title ` set ms" by auto
  then obtain m where m: "m \<in> set ms" "m_title m = row_title (md ! idx)"
    by (metis imageE)
  from ok m(1) have "movie_id_map ms (m_title m) = Some (m_id m)"
    unfolding movies_ok_def by (intro movie_id_map_member) simp_all
  moreover from ok m(1) have "find (\<lambda>y. m_id y = m_id m) ms = Some m"
    unfolding movies_ok_def by (intro find_unique) simp_all
  ultimately show ?thesis using m by auto
qed

lemma database_recommendations_expected:
  assumes ok: "movies_ok ms" and titles: "row_title ` set md \<subseteq> m_title ` set ms"
  shows "\<forall>p \<in> set pairs. fst p < length md \<Longrightarrow>
         database_recommendations ms (expected_rows md (movie_id_map ms) s (enumerate n pairs))
         = Some (map (present md) pairs)"
proof (induction pairs arbitrary: n)
  case Nil
  then show ?case by (simp add: expected_rows_def)
next
  case (Cons p pairs)
  obtain idx sc where p: "p = (idx, sc)" by (cases p)
  with Cons.prems have "idx < length md" by simp
  from movie_of_catalog_row [OF ok titles this] obtain m where
    "find (\<lambda>m. m_id m = the (movie_id_map ms (row_title (md ! idx)))) ms = Some m"
    "m_title m = row_title (md ! idx)" by blast
  moreover have "database_recommendations ms
        (expected_rows md (movie_id_map ms) s (enumerate (Suc n) pairs))
      = Some (map (present md) pairs)"
    using Cons.prems by (intro Cons.IH) simp
  ultimately show ?case
    using p by (simp add: expected_rows_def present_def)
qed

lemma persisted_answer:
  assumes ok: "movies_ok (movies db)" and titles: "row_title ` set md \<subseteq> m_title ` set (movies db)"
    and req: "json_movie req = Some t"
    and src: "find (\<lambda>m. m_title m = t) (movies db) = Some source"
    and rows: "rows_of db (m_id source)
               = expected_rows md (movie_id_map (movies db)) (m_id source) (enumerate n pairs)"
    and pairs: "pairs \<noteq> []" "length pairs \<le> 10" "\<forall>p \<in> set pairs. fst p < length md"
  shows "recommend_movies g req outcome db
         = (Recommendations t (map (present md) pairs) ''database'',
            log_request outcome source req db)"
proof -
  have q: "query_recommendations db (m_id source)
           = expected_rows md (movie_id_map (movies db)) (m_id source) (enumerate n pairs)"
    using rows pairs(2) by (rule query_expected_rows)
  have nonempty: "expected_rows md (movie_id_map (movies db)) (m_id source) (enumerate n pairs) \<noteq> []"
    using pairs(1) by (cases pairs) (simp_all add: expected_rows_def)
  have "database_recommendations (movies db)
          (expected_rows md (movie_id_map (movies db)) (m_id source) (enumerate n pairs))
        = Some (map (present md) pairs)"
    using ok titles pairs(3) by (rule database_recommendations_expected)
  with req src q nonempty show ?thesis
    by (simp add: recommend_movies_def Let_def)
qed

lemma migrated_answer:
  assumes ok: "movies_ok (movies db)" and none: "recommendations db = []"
    and dist: "distinct (map row_title md)"
    and i: "i < length md" "i < length sm" and len: "length (sm ! i) \<le> length md"
    and two: "2 \<le> length (sm ! i)"
    and req: "json_movie req = Some (row_title (md ! i))"
  shows "fst (recommend_movies g req outcome (migrate_all md sm db))
         = Recommendations (row_title (md ! i)) (map (present md) (top_pairs (sm ! i))) ''database''"
proof -
  let ?db = "migrate_all md sm db"
  note facts = store_movies_facts [OF ok, of md]
  have mok: "movies_ok (movies ?db)" and titles: "row_title ` set md \<subseteq> m_title ` set (movies ?db)"
    using facts(1,2) by (simp_all add: migrate_all_movies)
  from i(1) have "row_title (md ! i) \<in> row_title ` set md" by simp
  with titles have "row_title (md ! i) \<in> m_title ` set (movies ?db)" by auto
  from find_title_exists [OF this] obtain source where
    src: "find (\<lambda>m. m_title m = row_title (md ! i)) (movies ?db) = Some source" by blast
  have rows: "rows_of ?db (m_id source)
      = expected_rows md (movie_id_map (movies ?db)) (m_id source) (enumerate 1 (top_pairs (sm ! i)))"
    using ok none dist i len src by (rule migrate_all_stores_top_pairs)
  have ne: "top_pairs (sm ! i) \<noteq> []"
    using two length_top_pairs [of "sm ! i"] by auto
  have le: "length (top_pairs (sm ! i)) \<le> 10"
    by (simp add: length_top_pairs)
  have bound: "\<forall>p \<in> set (top_pairs (sm ! i)). fst p < length md"
    using top_pairs_entry [of _ "sm ! i"] len by fastforce
  from persisted_answer [OF mok titles req src rows ne le bound, of g outcome]
  show ?thesis by simp
qed

section \<open>The movie pass with its session\<close>

subsection \<open>A run without a rejected insert\<close>

lemma insert_movie_fresh:
  assumes "accepts row" and "\<forall>v. row_id row = Some v \<longrightarrow> Some v \<notin> set (map m_tmdb_id table)"
  shows "insert_movie accepts table row = Some (table @ [new_movie table row])"
  using assms by (simp add: insert_movie_def split: option.splits)

lemma store_movie_movies:
  "movies (fst (store_movie row st))
   = (case find (\<lambda>m. m_title m = row_title row) (movies (fst st)) of
        Some existing_movie \<Rightarrow> movies (fst st)
      | None \<Rightarrow> movies (fst st) @ [new_movie (movies (fst st)) row])"
  by (cases st) (simp add: store_movie_def split: option.splits)

lemma migrate_movie_refines:
  assumes rel: "flush accepts (visible s) (pending s) = Some (movies (fst st))"
    and ok: "accepts row"
    and fresh: "\<forall>v. row_id row = Some v \<longrightarrow> Some v \<notin> set (map m_tmdb_id (movies (fst st)))"
  shows "flush accepts (visible (migrate_movie accepts row s)) (pending (migrate_movie accepts row s))
         = Some (movies (fst (store_movie row st)))"
proof (cases "find (\<lambda>m. m_title m = row_title row) (movies (fst st))")
  case (Some m)
  with rel show ?thesis
    by (simp add: migrate_movie_def store_movie_movies)
next
  case None
  have ins: "insert_movie accepts (movies (fst st)) row
             = Some (movies (fst st) @ [new_movie (movies (fst st)) row])"
    using ok fresh by (rule insert_movie_fresh)
  with rel None show ?thesis
    by (simp add: migrate_movie_def store_movie_movies)
qed

lemma storable_table:
  assumes "storable accepts table rows"
    and "\<forall>v. Some v \<in> set (map m_tmdb_id table') \<longrightarrow>
           Some v \<in> set (map m_tmdb_id table) \<or> Some v \<notin> set (map row_id rows)"
  shows "storable accepts table' rows"
  using assms
proof (induction rows)
  case Nil
  then show ?case by simp
next
  case (Cons row rows)
  from Cons.prems have "storable accepts table' rows"
    by (intro Cons.IH) auto
  with Cons.prems show ?case
    by (auto split: option.splits)
qed

lemma storable_step:
  assumes "storable accepts (movies (fst st)) (row # rows)"
  shows "storable accepts (movies (fst (store_movie row st))) rows"
proof -
  from assms have rest: "storable accepts (movies (fst st)) rows"
    and later: "\<forall>v. row_id row = Some v \<longrightarrow> Some v \<notin> set (map row_id rows)"
    by (auto split: option.splits)
  have ids: "set (map m_tmdb_id (movies (fst (store_movie row st))))
             \<subseteq> insert (row_id row) (set (map m_tmdb_id (movies (fst st))))"
    by (auto simp: store_movie_movies new_movie_def split: option.splits)
  from rest show ?thesis
  proof (rule storable_table, intro allI impI)
    fix v
    assume "Some v \<in> set (map m_tmdb_id (movies (fst (store_movie row st))))"
    with ids have "Some v = row_id row \<or> Some v \<in> set (map m_tmdb_id (movies (fst st)))"
      by blast
    then show "Some v \<in> set (map m_tmdb_id (movies (fst st))) \<or> Some v \<notin> set (map row_id rows)"
      using later by metis
  qed
qed

lemma fold_migrate_movie_refines:
  "storable accepts (movies (fst st)) md \<Longrightarrow>
   flush accepts (visible s) (pending s) = Some (movies (fst st)) \<Longrightarrow>
   flush accepts (visible (fold (migrate_movie accepts) md s))
                 (pending (fold (migrate_movie accepts) md s))
   = Some (movies (fst (fold store_movie md st)))"
proof (induction md arbitrary: s st)
  case Nil
  then show ?case by simp
next
  case (Cons row md)
  from Cons.prems(1) have ok: "accepts row"
    and fresh: "\<forall>v. row_id row = Some v \<longrightarrow> Some v \<notin> set (map m_tmdb_id (movies (fst st)))"
    by (auto split: option.splits)
  have "flush accepts (visible (migrate_movie accepts row s)) (pending (migrate_movie accepts row s))
        = Some (movies (fst (store_movie row st)))"
    using Cons.prems(2) ok fresh by (rule migrate_movie_refines)
  moreover have "storable accepts (movies (fst (store_movie row st))) md"
    using Cons.prems(1) by (rule storable_step)
  ultimately show ?case
    using Cons.IH [of "store_movie row st" "migrate_movie accepts row s"] by simp
qed

lemma store_movies_only_movies:
  "fst (store_movies md db) = db\<lparr>movies := movies (fst (store_movies md db))\<rparr>"
  using fold_store_movie_other_tables [of md "(db, 0, 0)"]
  by (simp add: store_movies_def database.equality)

lemma migrate_movies_storable:
  assumes "storable accepts (movies db) md"
  shows "migrate_movies accepts md db = (True, fst (store_movies md db))"
proof -
  let ?s = "\<lparr>committed = movies db, visible = movies db, pending = [],
             migrated_count = 0, skipped_count = 0\<rparr>"
  have "flush accepts (visible (fold (migrate_movie accepts) md ?s))
                      (pending (fold (migrate_movie accepts) md ?s))
        = Some (movies (fst (fold store_movie md (db, 0, 0))))"
    using assms by (intro fold_migrate_movie_refines) simp_all
  then have "migrate_movies accepts md db = (True, db\<lparr>movies := movies (fst (store_movies md db))\<rparr>)"
    by (simp add: migrate_movies_def store_movies_def Let_def)
  then show ?thesis
    using store_movies_only_movies [of md db] by simp
qed

lemma main_storable:
  assumes "storable accepts (movies db) md"
  shows "main accepts md sm db = (True, migrate_all md sm db)"
  using migrate_movies_storable [OF assms]
  by (simp add: main_def migrate_all_def)

subsection \<open>Any run keeps the movie table well formed\<close>

lemma insert_movie_ok:
  assumes "movies_ok table" and "row_title row \<notin> set (map m_title table)"
    and "insert_movie accepts table row = Some ms"
  shows "movies_ok ms"
proof -
  from assms(3) have ms: "ms = table @ [new_movie table row]"
    by (auto simp: insert_movie_def split: if_splits option.splits)
  have "next_movie_id table \<notin> m_id ` set table"
    using next_movie_id_fresh by fastforce
  with assms(1,2) show ?thesis
    unfolding ms by (simp add: movies_ok_def new_movie_def next_movie_id_positive)
qed

lemma migrate_movie_ok:
  assumes com: "movies_ok (committed s)"
    and vis: "\<forall>ms. flush accepts (visible s) (pending s) = Some ms \<longrightarrow> movies_ok ms"
  shows "movies_ok (committed (migrate_movie accepts row s)) \<and>
         (\<forall>ms. flush accepts (visible (migrate_movie accepts row s))
                             (pending (migrate_movie accepts row s)) = Some ms \<longrightarrow> movies_ok ms)"
proof (cases "flush accepts (visible s) (pending s)")
  case None
  with com show ?thesis by (simp add: migrate_movie_def rollback_def)
next
  case (Some table)
  with vis have table: "movies_ok table" by simp
  show ?thesis
  proof (cases "find (\<lambda>m. m_title m = row_title row) table")
    case (Some m)
    with \<open>flush accepts (visible s) (pending s) = Some table\<close> com table show ?thesis
      by (simp add: migrate_movie_def)
  next
    case None
    then have new: "row_title row \<notin> set (map m_title table)"
      by (auto simp: find_None_iff)
    have ins: "movies_ok ms" if "insert_movie accepts table row = Some ms" for ms
      using table new that by (rule insert_movie_ok)
    from \<open>flush accepts (visible s) (pending s) = Some table\<close> None com ins show ?thesis
      by (auto simp: migrate_movie_def rollback_def split: option.splits)
  qed
qed

lemma fold_migrate_movie_ok:
  "movies_ok (committed s) \<Longrightarrow>
   \<forall>ms. flush accepts (visible s) (pending s) = Some ms \<longrightarrow> movies_ok ms \<Longrightarrow>
   movies_ok (committed (fold (migrate_movie accepts) md s)) \<and>
   (\<forall>ms. flush accepts (visible (fold (migrate_movie accepts) md s))
                       (pending (fold (migrate_movie accepts) md s)) = Some ms \<longrightarrow> movies_ok ms)"
proof (induction md arbitrary: s)
  case Nil
  then show ?case by simp
next
  case (Cons row md)
  from migrate_movie_ok [OF Cons.prems, of row] Cons.IH [of "migrate_movie accepts row s"]
  show ?case by simp
qed

lemma migrate_movies_ok:
  assumes "movies_ok (movies db)"
  shows "movies_ok (movies (snd (migrate_movies accepts md db)))"
proof -
  let ?s = "\<lparr>committed = movies db, visible = movies db, pending = [],
             migrated_count = 0, skipped_count = 0\<rparr>"
  have "movies_ok (committed (fold (migrate_movie accepts) md ?s)) \<and>
        (\<forall>ms. flush accepts (visible (fold (migrate_movie accepts) md ?s))
                            (pending (fold (migrate_movie accepts) md ?s)) = Some ms \<longrightarrow> movies_ok ms)"
    using assms by (intro fold_migrate_movie_ok) simp_all
  then show ?thesis
    by (auto simp: migrate_movies_def Let_def split: option.splits)
qed

lemma migrate_movies_other_tables:
  "recommendations (snd (migrate_movies accepts md db)) = recommendations db"
  "similarity_matrix_table (snd (migrate_movies accepts md db)) = similarity_matrix_table db"
  "history (snd (migrate_movies accepts md db)) = history db"
  by (simp_all add: migrate_movies_def Let_def split: option.splits)

subsection \<open>A run over titles that are all stored\<close>

lemma fold_migrate_movie_skips:
  "pending s = [] \<Longrightarrow> set (map row_title md) \<subseteq> set (map m_title (visible s)) \<Longrightarrow>
   fold (migrate_movie accepts) md s = s\<lparr>skipped_count := skipped_count s + length md\<rparr>"
proof (induction md arbitrary: s)
  case Nil
  then show ?case by simp
next
  case (Cons row md)
  from Cons.prems(2) obtain m where
    "find (\<lambda>m. m_title m = row_title row) (visible s) = Some m"
    by (cases "find (\<lambda>m. m_title m = row_title row) (visible s)") (auto simp: find_None_iff)
  with Cons.prems(1) have step: "migrate_movie accepts row s = s\<lparr>skipped_count := skipped_count s + 1\<rparr>"
    by (simp add: migrate_movie_def)
  from Cons.prems have "fold (migrate_movie accepts) md (s\<lparr>skipped_count := skipped_count s + 1\<rparr>)
        = (s\<lparr>skipped_count := skipped_count s + 1\<rparr>)
            \<lparr>skipped_count := skipped_count (s\<lparr>skipped_count := skipped_count s + 1\<rparr>) + length md\<rparr>"
    by (intro Cons.IH) simp_all
  with step show ?case by simp
qed

lemma migrate_movies_all_stored:
  assumes "set (map row_title md) \<subseteq> set (map m_title (movies db))"
  shows "migrate_movies accepts md db = (True, db)"
proof -
  let ?s = "\<lparr>committed = movies db, visible = movies db, pending = [],
             migrated_count = 0, skipped_count = 0\<rparr>"
  have "fold (migrate_movie accepts) md ?s = ?s\<lparr>skipped_count := skipped_count ?s + length md\<rparr>"
    using assms by (intro fold_migrate_movie_skips) simp_all
  then show ?thesis
    by (simp add: migrate_movies_def Let_def)
qed

section \<open>The read side of the persisted path\<close>

lemma take_enumerate: "take k (enumerate m xs) = enumerate m (take k xs)"
proof (induction xs arbitrary: k m)
  case Nil
  then show ?case by simp
next
  case (Cons x xs)
  then show ?case by (cases k) simp_all
qed

lemma take_expected_rows:
  "take k (expected_rows md idmap s (enumerate m xs))
   = expected_rows md idmap s (enumerate m (take k xs))"
  by (simp add: expected_rows_def take_map take_enumerate)

lemma top_pairs_take_drop:
  "top_pairs row = take 10 (drop 1 (sorted_reverse snd (enumerate 0 row)))"
  by (simp add: top_pairs_def slice_def)

lemma take_10_take:
  "take (min 10 n) (drop (Suc 0) (sorted_reverse snd (enumerate 0 row))) = take n (top_pairs row)"
  by (simp add: top_pairs_take_drop min.commute)

lemma sort_key_rank_expected_rows:
  "sort_key rank (expected_rows md idmap s (enumerate n pairs))
   = expected_rows md idmap s (enumerate n pairs)"
proof -
  have "sorted (map rank (expected_rows md idmap s (enumerate n pairs)))"
    by (simp add: rank_expected_rows)
  then show ?thesis by (rule sort_key_id_if_sorted)
qed

text \<open>The answer read from a store that holds the first \<open>n\<close> ranked candidates of the
  source: the query sorts the rows by rank and keeps ten of them.\<close>

lemma stored_answer:
  assumes h: "holds_ranked md sm db i source n"
    and i: "i < length md" and len: "length (sm ! i) \<le> length md"
    and req: "json_movie req = Some (row_title (md ! i))"
    and ne: "0 < n" "2 \<le> length (sm ! i)"
  shows "recommend_movies g req outcome db
         = (Recommendations (row_title (md ! i))
              (map (present md) (take n (top_pairs (sm ! i)))) ''database'',
            log_request outcome source req db)"
proof -
  let ?idmap = "movie_id_map (movies db)"
  let ?pairs = "take n (top_pairs (sm ! i))"
  from h have ok: "movies_ok (movies db)"
    and titles: "row_title ` set md \<subseteq> m_title ` set (movies db)"
    and src: "find (\<lambda>m. m_title m = row_title (md ! i)) (movies db) = Some source"
    and rows: "sort_key rank (rows_of db (m_id source))
       = expected_rows md ?idmap (m_id source)
           (enumerate 1 (take n (drop 1 (sorted_reverse snd (enumerate 0 (sm ! i))))))"
    by (simp_all add: holds_ranked_def)
  have q: "query_recommendations db (m_id source)
           = expected_rows md ?idmap (m_id source) (enumerate 1 ?pairs)"
    using rows
    by (simp add: query_recommendations_def take_expected_rows take_10_take flip: rows_of_def)
  have "top_pairs (sm ! i) \<noteq> []"
    using ne(2) length_top_pairs [of "sm ! i"] by auto
  with ne(1) have nonempty: "?pairs \<noteq> []" by (cases "top_pairs (sm ! i)") auto
  then have rows_nonempty: "expected_rows md ?idmap (m_id source) (enumerate 1 ?pairs) \<noteq> []"
    by (cases ?pairs) (simp_all add: expected_rows_def)
  have "\<forall>p \<in> set (top_pairs (sm ! i)). fst p < length md"
    using top_pairs_entry [of _ "sm ! i"] len by fastforce
  then have bound: "\<forall>p \<in> set ?pairs. fst p < length md"
    by (meson in_set_takeD)
  have "database_recommendations (movies db)
          (expected_rows md ?idmap (m_id source) (enumerate 1 ?pairs))
        = Some (map (present md) ?pairs)"
    using ok titles bound by (rule database_recommendations_expected)
  with req src q rows_nonempty show ?thesis
    by (simp add: recommend_movies_def Let_def)
qed

lemma holds_ranked_count:
  assumes "holds_ranked md sm db i source n"
  shows "length (rows_of db (m_id source)) = min n (length (sm ! i) - 1)"
proof -
  from assms have "length (sort_key rank (rows_of db (m_id source)))
      = length (take n (drop 1 (sorted_reverse snd (enumerate 0 (sm ! i)))))"
    by (simp add: holds_ranked_def)
  then show ?thesis by simp
qed

text \<open>The migration without a rejected insert leaves such a store, with \<open>n = 10\<close>.\<close>

lemma migrate_all_holds_ranked:
  assumes ok: "movies_ok (movies db)" and none: "recommendations db = []"
    and dist: "distinct (map row_title md)"
    and i: "i < length md" "i < length sm" and len: "length (sm ! i) \<le> length md"
  shows "\<exists>source. holds_ranked md sm (migrate_all md sm db) i source 10"
proof -
  let ?db = "migrate_all md sm db"
  note facts = store_movies_facts [OF ok, of md]
  have mok: "movies_ok (movies ?db)" and titles: "row_title ` set md \<subseteq> m_title ` set (movies ?db)"
    using facts(1,2) by (simp_all add: migrate_all_movies)
  from i(1) have "row_title (md ! i) \<in> row_title ` set md" by simp
  with titles have "row_title (md ! i) \<in> m_title ` set (movies ?db)" by auto
  from find_title_exists [OF this] obtain source where
    src: "find (\<lambda>m. m_title m = row_title (md ! i)) (movies ?db) = Some source" by blast
  have rows: "rows_of ?db (m_id source)
      = expected_rows md (movie_id_map (movies ?db)) (m_id source) (enumerate 1 (top_pairs (sm ! i)))"
    using ok none dist i len src by (rule migrate_all_stores_top_pairs)
  have "holds_ranked md sm ?db i source 10"
    unfolding holds_ranked_def
    using mok titles src
    by (simp add: rows sort_key_rank_expected_rows top_pairs_take_drop)
  then show ?thesis ..
qed

section \<open>The similarity-matrix pass on any well-formed movie table\<close>

lemma movie_id_map_inj:
  assumes ok: "movies_ok ms" and dist: "distinct (map row_title md)"
    and i: "i < length md" and j: "j < length md"
    and a: "movie_id_map ms (row_title (md ! i)) = Some k"
    and b: "movie_id_map ms (row_title (md ! j)) = Some k"
  shows "i = j"
proof -
  from movie_id_map_Some [OF a] movie_id_map_Some [OF b] obtain m m' where
    "m \<in> set ms" "m' \<in> set ms" "m_title m = row_title (md ! i)"
    "m_title m' = row_title (md ! j)" "m_id m = m_id m'"
    by auto
  moreover from this ok have "m = m'"
    by (auto simp: movies_ok_def dest: distinct_map_eq)
  ultimately have "map row_title md ! i = map row_title md ! j"
    using i j by simp
  with dist i j show ?thesis
    using nth_eq_iff_index_eq [of "map row_title md" i j] by (simp del: nth_map)
qed

lemma similarity_pass_pair_iff:
  assumes ok: "movies_ok (movies db)" and none: "similarity_matrix_table db = []"
    and dist: "distinct (map row_title md)"
    and shape: "length sm = length md" "\<forall>row \<in> set sm. length row = length md"
    and ij: "i < j" "j < length md"
    and m1: "find (\<lambda>m. m_title m = row_title (md ! i)) (movies db) = Some m1"
    and m2: "find (\<lambda>m. m_title m = row_title (md ! j)) (movies db) = Some m2"
  shows "(\<exists>p \<in> set (similarity_matrix_table (migrate_similarity_matrix md sm db)).
            movie1_id p = m_id m1 \<and> movie2_id p = m_id m2) \<longleftrightarrow> 0.01 < sm ! i ! j"
proof -
  let ?idmap = "movie_id_map (movies db)"
  have i: "i < length md" using ij by simp
  have lookup: "?idmap (row_title (md ! n)) = Some (m_id m) \<and>
                truthy_id (?idmap (row_title (md ! n))) = Some (m_id m)"
    if "find (\<lambda>m. m_title m = row_title (md ! n)) (movies db) = Some m" for n m
  proof -
    from that have "m \<in> set (movies db)" "m_title m = row_title (md ! n)"
      by (auto simp: find_Some_iff)
    with ok have "movie_id_map (movies db) (row_title (md ! n)) = Some (m_id m)"
      "m_id m \<noteq> 0"
      using movie_id_map_member [of "movies db" m] unfolding movies_ok_def by force+
    then show ?thesis by (simp add: truthy_id_def)
  qed
  note a = lookup [OF m1] and b = lookup [OF m2]
  have entry: "matrix_entry sm i j = Some (sm ! i ! j)"
    using shape i ij(2) by (rule matrix_entry_square)
  show ?thesis
  proof
    assume "\<exists>p \<in> set (similarity_matrix_table (migrate_similarity_matrix md sm db)).
              movie1_id p = m_id m1 \<and> movie2_id p = m_id m2"
    then obtain p where p: "p \<in> set (similarity_matrix_table (migrate_similarity_matrix md sm db))"
      "movie1_id p = m_id m1" "movie2_id p = m_id m2"
      by blast
    from migrate_similarity_matrix_justified [OF none, of md sm] p(1)
    have "pair_justified md sm ?idmap p" by blast
    then obtain i' j' where j: "i' < j'" "j' < length md"
      "?idmap (row_title (md ! i')) = Some (movie1_id p)"
      "?idmap (row_title (md ! j')) = Some (movie2_id p)"
      "matrix_entry sm i' j' = Some (pair_score p)" "0.01 < pair_score p"
      unfolding pair_justified_def by blast
    from j(1,2) have i': "i' < length md" by simp
    have "i' = i"
      using ok dist i' i by (rule movie_id_map_inj) (use j(3) p(2) a in simp_all)
    moreover have "j' = j"
      using ok dist j(2) ij(2) by (rule movie_id_map_inj) (use j(4) p(3) b in simp_all)
    ultimately show "0.01 < sm ! i ! j"
      using j(5,6) entry by simp
  next
    assume "0.01 < sm ! i ! j"
    with migrate_similarity_matrix_writes [OF ij _ _ entry, of db "m_id m1" "m_id m2"] a b
    show "\<exists>p \<in> set (similarity_matrix_table (migrate_similarity_matrix md sm db)).
            movie1_id p = m_id m1 \<and> movie2_id p = m_id m2"
      by blast
  qed
qed

lemma main_reaches_passes:
  assumes "fst (main accepts md sm db)"
  shows "snd (main accepts md sm db)
         = migrate_similarity_matrix md sm
             (migrate_similarity_data md sm (snd (migrate_movies accepts md db)))"
  using assms by (simp add: main_def split: prod.splits if_splits)

lemma stored_fallback:
  assumes h: "holds_ranked md sm db i source n"
    and req: "json_movie req = Some (row_title (md ! i))"
    and one: "length (sm ! i) < 2"
  shows "fst (recommend_movies g req outcome db) = pickle_fallback g (row_title (md ! i))"
proof -
  from h have src: "find (\<lambda>m. m_title m = row_title (md ! i)) (movies db) = Some source"
    by (simp add: holds_ranked_def)
  from holds_ranked_count [OF h] one have "rows_of db (m_id source) = []"
    by simp
  then have "query_recommendations db (m_id source) = []"
    by (simp add: query_recommendations_def rows_of_def)
  with req src show ?thesis
    by (simp add: recommend_movies_def Let_def)
qed

lemma take_length_min: "take (min n (length xs)) xs = take n xs"
  by (metis min.commute take_all order_refl take_take)

text \<open>The answer read from such a store is a prefix of the in-memory answer, as long as
  the number of rows stored, up to ten.\<close>

lemma stored_prefix:
  assumes h: "holds_ranked md sm db i source n"
    and i: "i < length md" and len: "length (sm ! i) \<le> length md"
    and req: "json_movie req = Some (row_title (md ! i))"
    and rows: "rows_of db (m_id source) \<noteq> []"
  shows "fst (recommend_movies g req outcome db)
         = Recommendations (row_title (md ! i))
             (take (min 10 (length (rows_of db (m_id source))))
                (map (present md) (top_pairs (sm ! i)))) ''database''"
proof -
  from holds_ranked_count [OF h] rows have ne: "0 < n" "2 \<le> length (sm ! i)"
    by (cases n; cases "length (sm ! i) - 1"; simp)+
  have "take (min 10 (length (rows_of db (m_id source)))) (top_pairs (sm ! i))
        = take (min n (length (top_pairs (sm ! i)))) (top_pairs (sm ! i))"
    by (simp add: holds_ranked_count [OF h] length_top_pairs min.left_commute min.commute)
  also have "\<dots> = take n (top_pairs (sm ! i))"
    by (rule take_length_min)
  finally have "take (min 10 (length (rows_of db (m_id source))))
                  (map (present md) (top_pairs (sm ! i)))
        = map (present md) (take n (top_pairs (sm ! i)))"
    by (simp add: take_map)
  with stored_answer [OF h i len req ne, of g outcome] show ?thesis by simp
qed

section \<open>The rows of every source after the migration\<close>

lemma migrate_all_ranks:
  assumes "movies_ok (movies db)" and "recommendations db = []"
    and "distinct (map row_title md)"
    and "length sm = length md" and "\<forall>row \<in> set sm. length row = length md"
    and "source \<in> set (movies (migrate_all md sm db))"
  shows "map rank (rows_of (migrate_all md sm db) (m_id source))
           = [1..<Suc (length (rows_of (migrate_all md sm db) (m_id source)))]
         \<and> sorted_wrt (\<ge>) (map similarity_score (rows_of (migrate_all md sm db) (m_id source)))"
proof (cases "m_title source \<in> row_title ` set md")
  case False
  with assms have "rows_of (migrate_all md sm db) (m_id source) = []"
    by (intro migrate_all_rows_outside_catalog) simp_all
  then show ?thesis by simp
next
  case True
  then obtain row where "row \<in> set md" "row_title row = m_title source" by (metis imageE)
  then obtain i where i: "i < length md" "row_title (md ! i) = m_title source"
    using index_of_member [of row md] by auto
  have mok: "movies_ok (movies (migrate_all md sm db))"
    using store_movies_facts(1) [OF assms(1), of md] by (simp add: migrate_all_movies)
  then have "find (\<lambda>m. m_title m = m_title source) (movies (migrate_all md sm db)) = Some source"
    unfolding movies_ok_def using assms(6) by (intro find_unique) simp_all
  with i have src:
    "find (\<lambda>m. m_title m = row_title (md ! i)) (movies (migrate_all md sm db)) = Some source"
    by simp
  from i(1) assms(4,5) have shape: "i < length sm" "length (sm ! i) \<le> length md"
    by simp_all
  have rows: "rows_of (migrate_all md sm db) (m_id source)
      = expected_rows md (movie_id_map (movies (migrate_all md sm db))) (m_id source)
          (enumerate 1 (top_pairs (sm ! i)))"
    using assms(1-3) i(1) shape src by (rule migrate_all_stores_top_pairs)
  show ?thesis
    unfolding rows
    by (simp add: rank_expected_rows score_expected_rows top_pairs_scores_descending)
qed

section \<open>The sample catalog\<close>

lemma sample_shape:
  "movies_ok (movies empty_database)" "recommendations empty_database = []"
  "storable sql_integer (movies empty_database) catalog3"
  "distinct (map row_title catalog3)"
  "length toy_matrix = length catalog3" "\<forall>row \<in> set toy_matrix. length row = length catalog3"
  "length twin_matrix = length catalog3" "\<forall>row \<in> set twin_matrix. length row = length catalog3"
  "length low_matrix = length catalog3" "\<forall>row \<in> set low_matrix. length row = length catalog3"
  by (simp_all add: movies_ok_def empty_database_def catalog3_def titled_def toy_matrix_def
        twin_matrix_def low_matrix_def sql_integer_def)

lemma sample_main:
  "main sql_integer catalog3 sm empty_database = (True, migrate_all catalog3 sm empty_database)"
  using sample_shape(3) by (rule main_storable)

lemma sample_movies:
  "movies (migrate_all catalog3 sm empty_database)
   = [stored_movie 1 11 ''A'', stored_movie 2 12 ''B'', stored_movie 3 13 ''C'']"
  by (simp add: migrate_all_movies store_movies_def store_movie_def new_movie_def catalog3_def
        titled_def empty_database_def next_movie_id_def stored_movie_def)

lemma sample_rows:
  "rows_of (migrate_all catalog3 toy_matrix empty_database) (Suc 0)
   = [\<lparr>source_movie_id = 1, recommended_movie_id = 2, similarity_score = 0.8, rank = 1\<rparr>,
      \<lparr>source_movie_id = 1, recommended_movie_id = 3, similarity_score = 0.2, rank = 2\<rparr>]"
  by (simp add: migrate_all_def store_movies_def store_movie_def new_movie_def catalog3_def
        titled_def empty_database_def next_movie_id_def migrate_similarity_data_def
        migrate_similarity_row_def create_recommendation_def movie_id_map_def truthy_id_def
        toy_matrix_def nth_opt_def slice_def sorted_reverse_def enumerate_eq_zip upt_rec
        rows_of_def Let_def)

lemma sample_store:
  "holds_ranked catalog3 twin_matrix shuffled_store 2 (stored_movie 3 13 ''C'') 12"
  by (simp add: holds_ranked_def shuffled_store_def movies_ok_def stored_movie_def catalog3_def
        titled_def rows_of_def twin_matrix_def expected_rows_def movie_id_map_def
        sorted_reverse_def enumerate_eq_zip upt_rec)

lemma sample_store_rows:
  "rows_of shuffled_store (m_id (stored_movie 3 13 ''C''))
   = [\<lparr>source_movie_id = 3, recommended_movie_id = 2, similarity_score = 0.5, rank = 2\<rparr>,
      \<lparr>source_movie_id = 3, recommended_movie_id = 1, similarity_score = 0.5, rank = 1\<rparr>]"
  by (simp add: shuffled_store_def rows_of_def stored_movie_def)

lemma sample_store_first:
  "holds_ranked catalog3 twin_matrix shuffled_store 0 (stored_movie 1 11 ''A'') 1"
  by (simp add: holds_ranked_def shuffled_store_def movies_ok_def stored_movie_def catalog3_def
        titled_def rows_of_def twin_matrix_def expected_rows_def movie_id_map_def
        sorted_reverse_def enumerate_eq_zip upt_rec)

lemma sample_top_pairs:
  "top_pairs (twin_matrix ! 2) = [(0, 0.5), (1, 0.5)]"
  "top_pairs (twin_matrix ! 0) = [(1, 1), (2, 0.5)]"
  "top_pairs (toy_matrix ! 0) = [(1, 0.8), (2, 0.2)]"
  by (simp_all add: top_pairs_def twin_matrix_def toy_matrix_def slice_def sorted_reverse_def
        enumerate_eq_zip upt_rec)

lemma sample_present:
  "map (present catalog3) [(0, 0.5), (1, 0.5)] = [(''A'', 0.5), (''B'', 0.5)]"
  "map (present catalog3) [(1, 1), (2, 0.5)] = [(''B'', 1), (''C'', 0.5)]"
  "map (present catalog3) [(1, 0.8), (2, 0.2)] = [(''B'', 0.8), (''C'', 0.2)]"
  by (simp_all add: present_def catalog3_def titled_def round4_def round_half_even_def)

lemma sample_requests:
  "json_movie (request_for t) = Some t"
  "index_of_title catalog3 ''A'' = Some 0" "index_of_title catalog3 ''C'' = Some 2"
  by (simp_all add: request_for_def catalog3_def titled_def)

section \<open>Properties\<close>

text \<open>
  C1. The ranking step is meant to leave out the source movie itself and nothing else.
  The code drops position 0 of the sorted row instead. In a catalog where movie A
  (index 0) and movie B (index 1) score 1.0 against each other, the answer for B
  lists B itself and leaves A out.
\<close>

theorem recommend_twin_lists_source:
  "pickle_recommendations catalog3 twin_matrix ''B''
   = Recommendations ''B'' [(''B'', 1), (''C'', 0.5)] ''pickle''"
  by (simp add: pickle_recommendations_def catalog3_def twin_matrix_def titled_def nth_opt_def
        slice_def sorted_reverse_def enumerate_eq_zip round4_def round_half_even_def upt_rec
        Let_def)









text \<open>
  C6. The threshold applies to what the migration stores in the similarity table and
  only there. After a migration that got past the movie pass (distinct titles, square
  matrix, a database with well-formed movies and an empty similarity table), the pair of
  the movies of catalog rows \<open>i < j\<close> is in the similarity table if and only if the
  matrix entry at \<open>(i, j)\<close> is strictly greater than 0.01. The in-memory path answers
  with every ranked candidate of the source's row, whatever its score, so a candidate
  with a score of at most 0.01 is returned whenever it is among the first ten after the
  dropped one.
\<close>

theorem threshold_only_when_persisting:
  assumes "movies_ok (movies db)" and "similarity_matrix_table db = []"
    and "distinct (map row_title md)"
    and "length sm = length md" and "\<forall>row \<in> set sm. length row = length md"
    and "i < j" and "j < length md"
    and "fst (main accepts md sm db)"
    and "find (\<lambda>m. m_title m = row_title (md ! i)) (movies (snd (main accepts md sm db)))
         = Some m1"
    and "find (\<lambda>m. m_title m = row_title (md ! j)) (movies (snd (main accepts md sm db)))
         = Some m2"
    and "index_of_title md t = Some k"
  shows "((\<exists>p \<in> set (similarity_matrix_table (snd (main accepts md sm db))).
             movie1_id p = m_id m1 \<and> movie2_id p = m_id m2) \<longleftrightarrow> 0.01 < sm ! i ! j) \<and>
         (\<exists>recs. pickle_recommendations md sm t = Recommendations t recs ''pickle'' \<and>
            (\<forall>p \<in> set (top_pairs (sm ! k)). present md p \<in> set recs))"
proof -
  let ?db = "migrate_similarity_data md sm (snd (migrate_movies accepts md db))"
  have run: "snd (main accepts md sm db) = migrate_similarity_matrix md sm ?db"
    using assms(8) by (rule main_reaches_passes)
  have ok: "movies_ok (movies ?db)"
    using migrate_movies_ok [OF assms(1), of accepts md] by simp
  have none: "similarity_matrix_table ?db = []"
    using assms(2) by (simp add: migrate_movies_other_tables)
  have m1: "find (\<lambda>m. m_title m = row_title (md ! i)) (movies ?db) = Some m1"
    and m2: "find (\<lambda>m. m_title m = row_title (md ! j)) (movies ?db) = Some m2"
    using assms(9,10) unfolding run by simp_all
  have pair: "(\<exists>p \<in> set (similarity_matrix_table (snd (main accepts md sm db))).
             movie1_id p = m_id m1 \<and> movie2_id p = m_id m2) \<longleftrightarrow> 0.01 < sm ! i ! j"
    unfolding run using ok none assms(3-7) m1 m2 by (rule similarity_pass_pair_iff)
  from index_of_title_Some [OF assms(11)] have k: "k < length md" by simp
  with assms(4,5) have shape: "k < length sm" "length (sm ! k) \<le> length md"
    by simp_all
  have "pickle_recommendations md sm t
        = Recommendations t (map (present md) (top_pairs (sm ! k))) ''pickle''"
    using assms(11) shape by (rule pickle_recommendations_eq)
  then have "\<exists>recs. pickle_recommendations md sm t = Recommendations t recs ''pickle'' \<and>
            (\<forall>p \<in> set (top_pairs (sm ! k)). present md p \<in> set recs)"
    by simp
  with pair show ?thesis by blast
qed

theorem threshold_only_when_persisting_witness:
  "fst (main sql_integer catalog3 low_matrix empty_database) \<and>
   \<not> (0.01 < low_matrix ! 0 ! 1) \<and> 0.01 < low_matrix ! 0 ! 2 \<and>
   similarity_matrix_table (snd (main sql_integer catalog3 low_matrix empty_database))
     = [\<lparr>movie1_id = 1, movie2_id = 3, pair_score = 0.5, algorithm = ''cosine_similarity''\<rparr>] \<and>
   \<not> (\<exists>p \<in> set (similarity_matrix_table
                    (snd (main sql_integer catalog3 low_matrix empty_database))).
         movie1_id p = 1 \<and> movie2_id p = 2) \<and>
   pickle_recommendations catalog3 low_matrix ''A''
     = Recommendations ''A'' [(''C'', 0.5), (''B'', 0.005)] ''pickle'' \<and>
   top_pairs (low_matrix ! 0) = [(2, 0.5), (1, 0.005)]"
proof -
  have run: "fst (main sql_integer catalog3 low_matrix empty_database)"
    by (simp add: sample_main)
  have titles: "row_title (catalog3 ! 0) = ''A''" "row_title (catalog3 ! 1) = ''B''"
    by (simp_all add: catalog3_def titled_def)
  have src: "find (\<lambda>m. m_title m = row_title (catalog3 ! 0))
               (movies (snd (main sql_integer catalog3 low_matrix empty_database)))
             = Some (stored_movie 1 11 ''A'')"
    "find (\<lambda>m. m_title m = row_title (catalog3 ! 1))
               (movies (snd (main sql_integer catalog3 low_matrix empty_database)))
             = Some (stored_movie 2 12 ''B'')"
    unfolding titles by (simp_all add: sample_main sample_movies stored_movie_def)
  have idx: "index_of_title catalog3 ''A'' = Some 0"
    by (simp add: catalog3_def titled_def)
  have none: "similarity_matrix_table empty_database = []"
    by (simp add: empty_database_def)
  have ids: "m_id (stored_movie 1 11 ''A'') = 1" "m_id (stored_movie 2 12 ''B'') = 2"
    by (simp_all add: stored_movie_def)
  have scores: "\<not> (0.01 < low_matrix ! 0 ! 1)" "0.01 < low_matrix ! 0 ! 2"
    by (simp_all add: low_matrix_def)
  have table: "similarity_matrix_table (snd (main sql_integer catalog3 low_matrix empty_database))
     = [\<lparr>movie1_id = 1, movie2_id = 3, pair_score = 0.5, algorithm = ''cosine_similarity''\<rparr>]"
    unfolding sample_main
    by (simp add: migrate_all_def store_movies_def store_movie_def new_movie_def catalog3_def
        titled_def empty_database_def next_movie_id_def migrate_similarity_matrix_def
        store_similarity_def movie_id_map_def truthy_id_def matrix_entry_def low_matrix_def
        nth_opt_def enumerate_eq_zip upt_rec)
  have top: "top_pairs (low_matrix ! 0) = [(2, 0.5), (1, 0.005)]"
    by (simp add: top_pairs_def low_matrix_def slice_def sorted_reverse_def enumerate_eq_zip
          upt_rec)
  have answer: "pickle_recommendations catalog3 low_matrix ''A''
     = Recommendations ''A'' [(''C'', 0.5), (''B'', 0.005)] ''pickle''"
    by (simp add: pickle_recommendations_def catalog3_def low_matrix_def titled_def nth_opt_def
        slice_def sorted_reverse_def enumerate_eq_zip round4_def round_half_even_def upt_rec
        Let_def)
  from threshold_only_when_persisting
         [OF sample_shape(1) none sample_shape(4) sample_shape(9,10) _ _ run src idx]
  have "(\<exists>p \<in> set (similarity_matrix_table
                      (snd (main sql_integer catalog3 low_matrix empty_database))).
           movie1_id p = m_id (stored_movie 1 11 ''A'') \<and> movie2_id p = m_id (stored_movie 2 12 ''B''))
        \<longleftrightarrow> 0.01 < low_matrix ! 0 ! 1"
    by (simp add: catalog3_def)
  with run scores ids table top answer show ?thesis by simp
qed

text \<open>
  C7. A failure of the analytics write leaves the answer unchanged: whether the commit
  of the history row goes through or raises (with any message), the handler returns the
  same response, and a request answered from the database is answered with the same
  recommendations; only the history table differs.
\<close>

theorem analytics_failure_not_surfaced:
  "fst (recommend_movies g req (Raised e) db) = fst (recommend_movies g req Committed db)
   \<and> history (snd (recommend_movies g req (Raised e) db)) = history db"
  by (simp add: recommend_movies_def log_request_def Let_def split: option.splits)

text \<open>
  C8. The handler is deterministic across invocations: a second request for the same
  movie, run on the database the first request left behind (which may hold one more
  history row), over the same catalog and matrix, returns the same response as the
  first, whatever the outcome of either analytics write.
\<close>

theorem recommend_repeatable:
  "fst (recommend_movies g req outcome2 (snd (recommend_movies g req outcome1 db)))
   = fst (recommend_movies g req outcome1 db)"
  by (rule recommend_movies_response_reads) (simp_all add: recommend_movies_tables)

text \<open>
  C9. In the in-memory path every returned item is consistent: whenever the path
  answers with recommendations for the source at index \<open>i\<close>, the list is, item by
  item, the title of the catalog row at a recommended index together with the rounded
  matrix entry of row \<open>i\<close> at that same index.
\<close>

theorem pickle_items_consistent:
  assumes "pickle_recommendations md sm t = Recommendations sel recs src"
  shows "\<exists>i. index_of_title md t = Some i \<and>
             recs = map (\<lambda>idx. (row_title (md ! idx), round4 (sm ! i ! idx)))
                        (map fst (top_pairs (sm ! i)))"
proof -
  from pickle_recommendations_success [OF assms] obtain i where
    i: "index_of_title md t = Some i" and
    recs: "recs = map (present md) (top_pairs (sm ! i))"
    by blast
  have "map (present md) (top_pairs (sm ! i))
        = map (\<lambda>idx. (row_title (md ! idx), round4 (sm ! i ! idx))) (map fst (top_pairs (sm ! i)))"
    using top_pairs_entry [of _ "sm ! i"] by (simp add: present_def)
  with i recs show ?thesis by simp
qed

theorem pickle_items_consistent_witness:
  "pickle_recommendations catalog3 toy_matrix ''A''
     = Recommendations ''A'' [(''B'', 0.8), (''C'', 0.2)] ''pickle'' \<and>
   (\<exists>i. index_of_title catalog3 ''A'' = Some i \<and>
       [(''B'', 0.8), (''C'', 0.2)]
       = map (\<lambda>idx. (row_title (catalog3 ! idx), round4 (toy_matrix ! i ! idx)))
             (map fst (top_pairs (toy_matrix ! i))))"
proof -
  have h: "pickle_recommendations catalog3 toy_matrix ''A''
        = Recommendations ''A'' [(''B'', 0.8), (''C'', 0.2)] ''pickle''"
    by (simp add: pickle_recommendations_def catalog3_def toy_matrix_def titled_def nth_opt_def
        slice_def sorted_reverse_def enumerate_eq_zip round4_def round_half_even_def upt_rec
        Let_def)
  from pickle_items_consistent [OF h] h show ?thesis by blast
qed




end
